theory Spec2Isabelle
  imports Complex_Main
begin

section \<open>Geometry: Point and Rectangle\<close>

text \<open>
  \<^verbatim>\<open>class Point\<close> of morphic.py holds two numbers. Python numbers are integers of any
  size, with exact arithmetic, or floats, whose \<open>+\<close> and \<open>-\<close> round. The coordinate type is
  a parameter \<open>'a\<close> of the model, with the operations the code uses (\<open>0\<close>, \<open>+\<close>, \<open>-\<close>,
  comparison) and no law assumed about them: the definitions below read over \<open>int\<close>,
  Python's integers, and over \<open>pyfloat\<close>, Python's floats, defined next. A scene that
  mixes the two is read over \<open>pyfloat\<close>: Python converts the integer operand of a mixed
  operation to a float, and compares the two by value. The fields are called \<open>px\<close> and
  \<open>py\<close> (the source's \<open>x\<close> and \<open>y\<close>) to keep \<open>x\<close> and \<open>y\<close> free as variable names.
\<close>

subsection \<open>Python floats\<close>

text \<open>
  A Python float is an IEEE 754 binary64 number: a finite value \<open>m * 2^e\<close> with
  \<open>|m| < 2^53\<close> and \<open>-1074 \<le> e \<le> 971\<close>, an infinity or NaN. \<open>Finite\<close> carries the value as
  a rational; the sign of zero is not kept (\<^verbatim>\<open>-0.0 == 0.0\<close>). \<open>round_double\<close> rounds a
  rational to the nearest float, ties to the even significand, and to an infinity from
  \<open>2^1024\<close> on. \<open>bit_length\<close> is \<^verbatim>\<open>int.bit_length\<close>, \<open>ilog2 x\<close> the integer part of the binary
  logarithm of \<open>|x|\<close>, \<open>pow2 e\<close> the power \<open>2^e\<close>.
\<close>

function bit_length :: "int \<Rightarrow> int" where
  "bit_length k = (if k \<le> 0 then 0 else 1 + bit_length (k div 2))"
  by pat_completeness auto
termination
  by (relation "measure nat") auto

definition pow2 :: "int \<Rightarrow> rat" where
  "pow2 e = (if 0 \<le> e then 2 ^ nat e else 1 / 2 ^ nat (- e))"

definition ilog2 :: "rat \<Rightarrow> int" where
  "ilog2 x = (if 1 \<le> \<bar>x\<bar> then bit_length \<lfloor>\<bar>x\<bar>\<rfloor> - 1
              else - bit_length (\<lceil>1 / \<bar>x\<bar>\<rceil> - 1))"

definition round_half_even :: "rat \<Rightarrow> int" where
  "round_half_even x =
     (let f = \<lfloor>x\<rfloor>; r = x - of_int f
      in if r < 1 / 2 then f else if 1 / 2 < r then f + 1
         else if even f then f else f + 1)"

datatype pyfloat = Finite rat | PosInf | NegInf | NaN

definition round_double :: "rat \<Rightarrow> pyfloat" where
  "round_double x =
     (if x = 0 then Finite 0
      else let e = max (ilog2 x - 52) (- 1074);
               r = of_int (round_half_even (x / pow2 e)) * pow2 e
           in if 1024 \<le> ilog2 r then (if 0 < x then PosInf else NegInf)
              else Finite r)"

text \<open>
  The operations of floats: \<open>+\<close> and \<open>-\<close> round the exact result, negation is exact,
  every comparison with NaN is false.
\<close>

instantiation pyfloat :: "{zero, plus, minus, uminus, ord}"
begin

definition zero_pyfloat :: pyfloat where
  "zero_pyfloat = Finite 0"

fun uminus_pyfloat :: "pyfloat \<Rightarrow> pyfloat" where
  "uminus_pyfloat (Finite a) = Finite (- a)"
| "uminus_pyfloat PosInf = NegInf"
| "uminus_pyfloat NegInf = PosInf"
| "uminus_pyfloat NaN = NaN"

fun plus_pyfloat :: "pyfloat \<Rightarrow> pyfloat \<Rightarrow> pyfloat" where
  "plus_pyfloat (Finite a) (Finite b) = round_double (a + b)"
| "plus_pyfloat NaN _ = NaN"
| "plus_pyfloat _ NaN = NaN"
| "plus_pyfloat PosInf NegInf = NaN"
| "plus_pyfloat NegInf PosInf = NaN"
| "plus_pyfloat PosInf _ = PosInf"
| "plus_pyfloat _ PosInf = PosInf"
| "plus_pyfloat NegInf _ = NegInf"
| "plus_pyfloat _ NegInf = NegInf"

definition minus_pyfloat :: "pyfloat \<Rightarrow> pyfloat \<Rightarrow> pyfloat" where
  "minus_pyfloat a b = a + (- b)"

fun less_pyfloat :: "pyfloat \<Rightarrow> pyfloat \<Rightarrow> bool" where
  "less_pyfloat (Finite a) (Finite b) = (a < b)"
| "less_pyfloat NaN _ = False"
| "less_pyfloat _ NaN = False"
| "less_pyfloat _ NegInf = False"
| "less_pyfloat PosInf _ = False"
| "less_pyfloat NegInf _ = True"
| "less_pyfloat _ PosInf = True"

fun less_eq_pyfloat :: "pyfloat \<Rightarrow> pyfloat \<Rightarrow> bool" where
  "less_eq_pyfloat (Finite a) (Finite b) = (a \<le> b)"
| "less_eq_pyfloat NaN _ = False"
| "less_eq_pyfloat _ NaN = False"
| "less_eq_pyfloat NegInf _ = True"
| "less_eq_pyfloat _ PosInf = True"
| "less_eq_pyfloat _ NegInf = False"
| "less_eq_pyfloat PosInf _ = False"

instance ..

end

subsection \<open>Point\<close>

record 'a point =
  px :: 'a
  py :: 'a

definition Point :: "'a \<Rightarrow> 'a \<Rightarrow> 'a point" where
  "Point a b = \<lparr>px = a, py = b\<rparr>"

text \<open>Point comparison: \<open>__lt__\<close>, \<open>__le__\<close> compare both components.\<close>

definition point_lt :: "'a::{zero,plus,minus,uminus,ord} point \<Rightarrow> 'a point \<Rightarrow> bool" where
  "point_lt p q = (px p < px q \<and> py p < py q)"

definition point_le :: "'a::{zero,plus,minus,uminus,ord} point \<Rightarrow> 'a point \<Rightarrow> bool" where
  "point_le p q = (px p \<le> px q \<and> py p \<le> py q)"

text \<open>
  The builtins \<^verbatim>\<open>max(a, b)\<close> and \<^verbatim>\<open>min(a, b)\<close> answer \<open>a\<close> unless \<open>b\<close> is greater,
  respectively less.
\<close>

definition py_max :: "'a::ord \<Rightarrow> 'a \<Rightarrow> 'a" where
  "py_max a b = (if a < b then b else a)"

definition py_min :: "'a::ord \<Rightarrow> 'a \<Rightarrow> 'a" where
  "py_min a b = (if b < a then b else a)"

definition point_max :: "'a::{zero,plus,minus,uminus,ord} point \<Rightarrow> 'a point \<Rightarrow> 'a point" where
  "point_max p q = Point (py_max (px p) (px q)) (py_max (py p) (py q))"

definition point_min :: "'a::{zero,plus,minus,uminus,ord} point \<Rightarrow> 'a point \<Rightarrow> 'a point" where
  "point_min p q = Point (py_min (px p) (px q)) (py_min (py p) (py q))"

text \<open>Point arithmetic with a Point operand: \<open>__add__\<close>, \<open>__sub__\<close>, \<open>__neg__\<close>.\<close>

definition point_add :: "'a::{zero,plus,minus,uminus,ord} point \<Rightarrow> 'a point \<Rightarrow> 'a point" where
  "point_add p q = Point (px p + px q) (py p + py q)"

definition point_sub :: "'a::{zero,plus,minus,uminus,ord} point \<Rightarrow> 'a point \<Rightarrow> 'a point" where
  "point_sub p q = Point (px p - px q) (py p - py q)"

definition point_neg :: "'a::{zero,plus,minus,uminus,ord} point \<Rightarrow> 'a point" where
  "point_neg p = Point (- px p) (- py p)"

text \<open>
  \<^verbatim>\<open>Point.rotate(self, direction, center)\<close>. The argument \<open>direction\<close> is a string, a
  number or anything else; the function answers \<^verbatim>\<open>NotImplemented\<close> (here \<open>None\<close>) for a
  string other than the three names and for a value that is neither string nor number.
  The numeric branch calls \<^verbatim>\<open>math.radians\<close>, \<^verbatim>\<open>math.cos\<close> and \<^verbatim>\<open>math.sin\<close>, modelled by the
  real functions.
\<close>

datatype direction = Str string | Num real | Other

definition radians :: "real \<Rightarrow> real" where
  "radians d = d * pi / 180"

definition rotate :: "real point \<Rightarrow> direction \<Rightarrow> real point \<Rightarrow> real point option" where
  "rotate self direction center =
     (let offset = point_sub self center in
      if direction = Str ''right'' then
        Some (point_add (Point (- py offset) (py offset)) center)
      else if direction = Str ''left'' then
        Some (point_add (Point (py offset) (- py offset)) center)
      else if direction = Str ''pi'' then
        Some (point_sub center offset)
      else (case direction of
              Num d \<Rightarrow>
                (let perp = Point (- py self) (px self);
                     angle = radians d;
                     c = cos angle; s = sin angle
                 in Some (Point (px self * c + px perp * s) (py self * c + py perp * s)))
            | _ \<Rightarrow> None))"

text \<open>\<^verbatim>\<open>class Rectangle\<close>: two points, \<open>origin\<close> and \<open>corner\<close>.\<close>

record 'a rectangle =
  origin :: "'a point"
  corner :: "'a point"

definition Rectangle :: "'a point \<Rightarrow> 'a point \<Rightarrow> 'a rectangle" where
  "Rectangle org crn = \<lparr>origin = org, corner = crn\<rparr>"

definition extent :: "'a::{zero,plus,minus,uminus,ord} rectangle \<Rightarrow> 'a point" where
  "extent r = point_sub (corner r) (origin r)"

definition intersect :: "'a::{zero,plus,minus,uminus,ord} rectangle \<Rightarrow> 'a rectangle \<Rightarrow> 'a rectangle" where
  "intersect self aRectangle =
     Rectangle (point_max (origin self) (origin aRectangle))
               (point_min (corner self) (corner aRectangle))"

definition merge :: "'a::{zero,plus,minus,uminus,ord} rectangle \<Rightarrow> 'a rectangle \<Rightarrow> 'a rectangle" where
  "merge self aRectangle =
     Rectangle (point_min (origin self) (origin aRectangle))
               (point_max (corner self) (corner aRectangle))"

text \<open>
  \<^verbatim>\<open>return self.origin <= point < self.corner\<close>: a chained comparison, the conjunction
  of \<open>origin <= point\<close> and \<open>point < corner\<close>.
\<close>

definition contains_point :: "'a::{zero,plus,minus,uminus,ord} rectangle \<Rightarrow> 'a point \<Rightarrow> bool" where
  "contains_point self point = (point_le (origin self) point \<and> point_lt point (corner self))"

definition contains_rectangle :: "'a::{zero,plus,minus,uminus,ord} rectangle \<Rightarrow> 'a rectangle \<Rightarrow> bool" where
  "contains_rectangle self rect =
     (point_le (origin self) (origin rect) \<and> point_le (corner rect) (corner self))"

text \<open>
  \<^verbatim>\<open>translate_by\<close> adds the factor to both points with the \<open>+\<close> of the coordinates: exact
  for integers, rounded for floats.
\<close>

definition translate_by :: "'a::{zero,plus,minus,uminus,ord} rectangle \<Rightarrow> 'a point \<Rightarrow> 'a rectangle" where
  "translate_by self factor =
     Rectangle (point_add (origin self) factor) (point_add (corner self) factor)"

section \<open>The object store\<close>

text \<open>
  Morphs are Python objects that refer to each other: a node holds a reference to its
  parent and a list of references to its children. The model keeps every object in a
  store indexed by reference, so that two lists can name the same morph and an update of
  one object is seen through every reference to it. A reference that may be \<^verbatim>\<open>None\<close> is
  a \<open>ref option\<close>.
\<close>

type_synonym ref = nat

text \<open>The classes of morphic.py that derive from \<open>Node\<close>.\<close>

datatype klass =
    Morph | Resizer | Blinker | Shadow | Widget | ColorPalette | GrayPalette
  | ColorPicker | Ellipse | Polygon | CircleBox | SliderButton | Slider | RoundedBox
  | Menu | SelectionMenu | Trigger | MenuItem | Bouncer | String | TextCursor | Text
  | Hand | Frame | StringField | World

text \<open>
  The method resolution order of each class, from its \<^verbatim>\<open>class C(Bases)\<close> header:
  the class itself, then its ancestors.
\<close>

fun mro :: "klass \<Rightarrow> klass list" where
  "mro Morph = [Morph]"
| "mro Resizer = [Resizer, Morph]"
| "mro Blinker = [Blinker, Morph]"
| "mro Shadow = [Shadow, Morph]"
| "mro Widget = [Widget, Morph]"
| "mro ColorPalette = [ColorPalette, Morph]"
| "mro GrayPalette = [GrayPalette, ColorPalette, Morph]"
| "mro ColorPicker = [ColorPicker, Widget, Morph]"
| "mro Ellipse = [Ellipse, Morph]"
| "mro Polygon = [Polygon, Morph]"
| "mro CircleBox = [CircleBox, Morph]"
| "mro SliderButton = [SliderButton, CircleBox, Morph]"
| "mro Slider = [Slider, CircleBox, Morph]"
| "mro RoundedBox = [RoundedBox, Morph]"
| "mro Menu = [Menu, RoundedBox, Morph]"
| "mro SelectionMenu = [SelectionMenu, Menu, RoundedBox, Morph]"
| "mro Trigger = [Trigger, Morph]"
| "mro MenuItem = [MenuItem, Trigger, Widget, Morph]"
| "mro Bouncer = [Bouncer, Morph]"
| "mro String = [String, Morph]"
| "mro TextCursor = [TextCursor, Blinker, Morph]"
| "mro Text = [Text, String, Morph]"
| "mro Hand = [Hand, Morph]"
| "mro Frame = [Frame, Morph]"
| "mro StringField = [StringField, Frame, Widget, Morph]"
| "mro World = [World, Frame, Morph]"

definition isinstance :: "klass \<Rightarrow> klass \<Rightarrow> bool" where
  "isinstance c k = (k \<in> set (mro c))"

text \<open>
  One record holds the attributes of a morph: those of \<open>Node\<close> and \<open>Morph\<close>, and the
  attributes that only some classes set and that the modelled methods read or write
  (\<open>is_editable\<close> of String, \<open>is_temporary\<close> and \<open>choice\<close> of the menus, \<open>target\<close> of
  TextCursor, \<open>_world\<close>, \<open>mouse_down_morph\<close> and \<open>morph_to_grab\<close> of Hand, \<open>broken\<close>,
  \<open>open_menus\<close>, \<open>text_cursor\<close>, \<open>keyboard_receiver\<close> and \<open>is_dev_mode\<close> of World).
  \<open>hand_world\<close> is the attribute \<open>_world\<close>. The cached image and the colours are not
  modelled.
\<close>

record 'a morph =
  cls :: klass
  parent :: "ref option"
  children :: "ref list"
  bounds :: "'a rectangle"
  is_visible :: bool
  is_editable :: bool
  is_temporary :: bool
  choice :: "bool option"
  target :: "ref option"
  hand_world :: "ref option"
  mouse_down_morph :: "ref option"
  morph_to_grab :: "ref option"
  broken :: "'a rectangle list"
  open_menus :: "ref list"
  text_cursor :: "ref option"
  keyboard_receiver :: "ref option"
  is_dev_mode :: bool

type_synonym 'a heap = "ref \<Rightarrow> 'a morph"

text \<open>The exceptions the modelled code can raise.\<close>

datatype error = ValueError | AttributeError | RecursionError

definition bindE :: "error + 'b \<Rightarrow> ('b \<Rightarrow> error + 'c) \<Rightarrow> error + 'c" where
  "bindE r f = (case r of Inl e \<Rightarrow> Inl e | Inr v \<Rightarrow> f v)"

text \<open>
  A \<^verbatim>\<open>for x in xs:\<close> loop whose body updates an accumulator and may raise: the first
  exception ends the loop.
\<close>

fun foldE :: "('x \<Rightarrow> 's \<Rightarrow> error + 's) \<Rightarrow> 'x list \<Rightarrow> 's \<Rightarrow> error + 's" where
  "foldE f [] s = Inr s"
| "foldE f (x # xs) s = (case f x s of Inl e \<Rightarrow> Inl e | Inr s' \<Rightarrow> foldE f xs s')"

subsection \<open>Node\<close>

text \<open>
  \<^verbatim>\<open>add_child\<close> appends to the list, then sets the parent; \<^verbatim>\<open>remove_child\<close> removes the
  first occurrence (\<^verbatim>\<open>list.remove\<close> raises ValueError when there is none; morphs define no
  \<open>__eq__\<close>, so the comparison is identity), then clears the parent. The two assignments
  are two updates of the store, in the source's order.
\<close>

definition add_child :: "'a heap \<Rightarrow> ref \<Rightarrow> ref \<Rightarrow> 'a heap" where
  "add_child h self node =
     (let h1 = h(self := (h self)\<lparr>children := children (h self) @ [node]\<rparr>)
      in h1(node := (h1 node)\<lparr>parent := Some self\<rparr>))"

definition remove_child :: "'a heap \<Rightarrow> ref \<Rightarrow> ref \<Rightarrow> error + 'a heap" where
  "remove_child h self node =
     (if node \<in> set (children (h self)) then
        (let h1 = h(self := (h self)\<lparr>children := remove1 node (children (h self))\<rparr>)
         in Inr (h1(node := (h1 node)\<lparr>parent := None\<rparr>)))
      else Inl ValueError)"

text \<open>
  \<^verbatim>\<open>root\<close> follows the parent references. On a cyclic chain the Python recursion never
  returns a value (it ends in RecursionError): the model answers \<open>None\<close> there, and the
  callers turn that into the exception.
\<close>

partial_function (option) root :: "'a heap \<Rightarrow> ref \<Rightarrow> ref option" where
  "root h self = (case parent (h self) of None \<Rightarrow> Some self | Some p \<Rightarrow> root h p)"

text \<open>
  The recursive methods that descend into the children (\<open>all_children\<close>, \<open>full_bounds\<close>,
  \<open>move_by\<close>) take a budget \<open>n\<close>: the number of levels of the tree they may visit, as
  the interpreter's recursion limit bounds the nesting of their calls; at 0 they raise
  RecursionError.
\<close>

fun all_children :: "nat \<Rightarrow> 'a heap \<Rightarrow> ref \<Rightarrow> error + ref list" where
  "all_children 0 h self = Inl RecursionError"
| "all_children (Suc n) h self =
     foldE (\<lambda>child result. bindE (all_children n h child) (\<lambda>cs. Inr (result @ cs)))
           (children (h self)) [self]"

subsection \<open>Morph\<close>

text \<open>
  \<^verbatim>\<open>get_shadow\<close>: the last child that is a Shadow. \<^verbatim>\<open>full_bounds\<close>: \<open>Morph\<close> merges its
  bounds with the full bounds of every child; \<open>Frame\<close> (and so StringField and World)
  overrides it with its bounds merged with the bounds of its shadow, if it has one.
\<close>

definition get_shadow :: "'a heap \<Rightarrow> ref \<Rightarrow> ref option" where
  "get_shadow h self = find (\<lambda>child. isinstance (cls (h child)) Shadow) (rev (children (h self)))"

fun full_bounds :: "nat \<Rightarrow> 'a::{zero,plus,minus,uminus,ord} heap \<Rightarrow> ref \<Rightarrow> error + 'a rectangle" where
  "full_bounds 0 h self = Inl RecursionError"
| "full_bounds (Suc n) h self =
     (if isinstance (cls (h self)) Frame then
        (case get_shadow h self of
           Some shadow \<Rightarrow> Inr (merge (bounds (h self)) (bounds (h shadow)))
         | None \<Rightarrow> Inr (bounds (h self)))
      else
        foldE (\<lambda>child result. bindE (full_bounds n h child) (\<lambda>b. Inr (merge result b)))
              (children (h self)) (bounds (h self)))"

text \<open>
  \<^verbatim>\<open>changed\<close> and \<^verbatim>\<open>full_changed\<close> of \<open>Morph\<close> append a copy of the (full) bounds to the
  \<open>broken\<close> list of the root if the root is a World. \<open>Hand\<close> overrides \<^verbatim>\<open>changed\<close>: it
  appends its full bounds to the \<open>broken\<close> list of its own world if their extent is not
  (0,0). The model dispatches on the class of \<open>self\<close>.
\<close>

definition report :: "'a heap \<Rightarrow> ref \<Rightarrow> 'a rectangle \<Rightarrow> 'a heap" where
  "report h w r = h(w := (h w)\<lparr>broken := broken (h w) @ [r]\<rparr>)"

definition Morph_changed :: "'a heap \<Rightarrow> ref \<Rightarrow> error + 'a heap" where
  "Morph_changed h self =
     (case root h self of
        None \<Rightarrow> Inl RecursionError
      | Some w \<Rightarrow> if isinstance (cls (h w)) World then Inr (report h w (bounds (h self)))
                  else Inr h)"

definition Hand_changed :: "nat \<Rightarrow> 'a::{zero,plus,minus,uminus,ord} heap \<Rightarrow> ref \<Rightarrow> error + 'a heap" where
  "Hand_changed n h self =
     (case hand_world (h self) of
        None \<Rightarrow> Inr h
      | Some w \<Rightarrow>
          bindE (full_bounds n h self) (\<lambda>b.
            if extent b \<noteq> Point 0 0 then
              bindE (full_bounds n h self) (\<lambda>fb. Inr (report h w fb))
            else Inr h))"

definition changed :: "nat \<Rightarrow> 'a::{zero,plus,minus,uminus,ord} heap \<Rightarrow> ref \<Rightarrow> error + 'a heap" where
  "changed n h self =
     (if isinstance (cls (h self)) Hand then Hand_changed n h self else Morph_changed h self)"

definition full_changed :: "nat \<Rightarrow> 'a::{zero,plus,minus,uminus,ord} heap \<Rightarrow> ref \<Rightarrow> error + 'a heap" where
  "full_changed n h self =
     (case root h self of
        None \<Rightarrow> Inl RecursionError
      | Some w \<Rightarrow> if isinstance (cls (h w)) World then
                    bindE (full_bounds n h self) (\<lambda>fb. Inr (report h w fb))
                  else Inr h)"

text \<open>
  \<^verbatim>\<open>set_width\<close> and \<^verbatim>\<open>set_height\<close> assign a new corner to the morph's rectangle between
  two damage reports; \<^verbatim>\<open>set_extent\<close> calls both with the components clamped at 0. The
  new corner is the origin plus the width or height, a sum that is rounded when the
  coordinates are floats; the extent of the morph is read back as corner minus origin.
\<close>

definition set_corner :: "'a heap \<Rightarrow> ref \<Rightarrow> 'a point \<Rightarrow> 'a heap" where
  "set_corner h self c = h(self := (h self)\<lparr>bounds := (bounds (h self))\<lparr>corner := c\<rparr>\<rparr>)"

definition set_width :: "nat \<Rightarrow> 'a::{zero,plus,minus,uminus,ord} heap \<Rightarrow> ref \<Rightarrow> 'a \<Rightarrow> error + 'a heap" where
  "set_width n h self width =
     bindE (changed n h self) (\<lambda>h1.
       changed n
         (set_corner h1 self
            (Point (px (origin (bounds (h1 self))) + width) (py (corner (bounds (h1 self))))))
         self)"

definition set_height :: "nat \<Rightarrow> 'a::{zero,plus,minus,uminus,ord} heap \<Rightarrow> ref \<Rightarrow> 'a \<Rightarrow> error + 'a heap" where
  "set_height n h self height =
     bindE (changed n h self) (\<lambda>h1.
       changed n
         (set_corner h1 self
            (Point (px (corner (bounds (h1 self)))) (py (origin (bounds (h1 self))) + height)))
         self)"

definition set_extent :: "nat \<Rightarrow> 'a::{zero,plus,minus,uminus,ord} heap \<Rightarrow> ref \<Rightarrow> 'a point \<Rightarrow> error + 'a heap" where
  "set_extent n h self aPoint =
     bindE (set_width n h self (py_max (px aPoint) 0)) (\<lambda>h1.
       set_height n h1 self (py_max (py aPoint) 0))"

text \<open>
  \<^verbatim>\<open>Morph.add\<close> detaches the morph from its parent, if it has one, and appends it to the
  children of \<open>self\<close>. \<open>World\<close> overrides \<^verbatim>\<open>add\<close>: a Menu is first appended to
  \<open>open_menus\<close>.
\<close>

definition Morph_add :: "'a heap \<Rightarrow> ref \<Rightarrow> ref \<Rightarrow> error + 'a heap" where
  "Morph_add h self morph =
     (case parent (h morph) of
        Some p \<Rightarrow> bindE (remove_child h p morph) (\<lambda>h1. Inr (add_child h1 self morph))
      | None \<Rightarrow> Inr (add_child h self morph))"

definition World_add :: "'a heap \<Rightarrow> ref \<Rightarrow> ref \<Rightarrow> error + 'a heap" where
  "World_add h self morph =
     (let h1 = (if isinstance (cls (h morph)) Menu
                then h(self := (h self)\<lparr>open_menus := open_menus (h self) @ [morph]\<rparr>)
                else h)
      in Morph_add h1 self morph)"

definition add :: "'a heap \<Rightarrow> ref \<Rightarrow> ref \<Rightarrow> error + 'a heap" where
  "add h self morph =
     (if isinstance (cls (h self)) World then World_add h self morph
      else Morph_add h self morph)"

text \<open>
  Well-formed stores. \<open>tree_inv\<close> is the invariant of the tree: a node is the parent of
  exactly the morphs its children list names, and names none twice. \<open>rooted h a\<close> says
  that the parent chain of \<open>a\<close> ends: no node of the chain is its own ancestor.
  \<open>depth_within n h a\<close> says that the tree below \<open>a\<close> is less than \<open>n\<close> levels deep.
\<close>

definition tree_inv :: "'a heap \<Rightarrow> bool" where
  "tree_inv h =
     ((\<forall>n c. (parent (h c) = Some n) = (c \<in> set (children (h n))))
      \<and> (\<forall>n. distinct (children (h n))))"

inductive rooted :: "'a heap \<Rightarrow> ref \<Rightarrow> bool" for h :: "'a heap" where
  rooted_top: "parent (h a) = None \<Longrightarrow> rooted h a"
| rooted_up: "parent (h a) = Some p \<Longrightarrow> rooted h p \<Longrightarrow> rooted h a"

fun depth_within :: "nat \<Rightarrow> 'a heap \<Rightarrow> ref \<Rightarrow> bool" where
  "depth_within 0 h a = False"
| "depth_within (Suc n) h a = list_all (depth_within n h) (children (h a))"

text \<open>
  \<^verbatim>\<open>move_by\<close> replaces the bounds of the morph by the translated rectangle, between two
  damage reports, and moves every child by the same delta. The budget of \<open>changed\<close> is
  that of its caller.
\<close>

definition set_bounds :: "'a heap \<Rightarrow> ref \<Rightarrow> 'a rectangle \<Rightarrow> 'a heap" where
  "set_bounds h self r = h(self := (h self)\<lparr>bounds := r\<rparr>)"


text \<open>
  \<open>translate_all delta xs h\<close> translates the bounds of the objects named in \<open>xs\<close>, one
  after the other (an object named twice is translated twice). It describes what
  \<^verbatim>\<open>move_by\<close> does to the bounds when \<open>xs\<close> is the \<open>all_children\<close> list of the morph.
\<close>

definition translate_all :: "'a::{zero,plus,minus,uminus,ord} point \<Rightarrow> ref list \<Rightarrow> 'a heap \<Rightarrow> 'a heap" where
  "translate_all delta xs h =
     fold (\<lambda>x g. set_bounds g x (translate_by (bounds (g x)) delta)) xs h"


text \<open>
  \<^verbatim>\<open>morph_at\<close> walks the reversed \<open>all_children\<close> list and returns the first morph
  that is not a Shadow and whose full bounds contain the point. The loop has no
  \<^verbatim>\<open>return\<close> after it: when no morph matches, the method answers \<^verbatim>\<open>None\<close>. The loop does
  not read \<open>is_visible\<close>.
\<close>

fun morph_at_scan :: "nat \<Rightarrow> 'a::{zero,plus,minus,uminus,ord} heap \<Rightarrow> 'a point \<Rightarrow> ref list \<Rightarrow> error + ref option" where
  "morph_at_scan n h point [] = Inr None"
| "morph_at_scan n h point (m # ms) =
     bindE (full_bounds n h m) (\<lambda>fb.
       if contains_point fb point \<and> \<not> isinstance (cls (h m)) Shadow then Inr (Some m)
       else morph_at_scan n h point ms)"

definition morph_at :: "nat \<Rightarrow> 'a::{zero,plus,minus,uminus,ord} heap \<Rightarrow> ref \<Rightarrow> 'a point \<Rightarrow> error + ref option" where
  "morph_at n h self point =
     bindE (all_children n h self) (\<lambda>morphs. morph_at_scan n h point (rev morphs))"

text \<open>
  \<open>hits n h point m\<close>: the test of the loop, that the full bounds of \<open>m\<close> contain the
  point and \<open>m\<close> is not a Shadow.
\<close>

definition hits :: "nat \<Rightarrow> 'a::{zero,plus,minus,uminus,ord} heap \<Rightarrow> 'a point \<Rightarrow> ref \<Rightarrow> bool" where
  "hits n h point m =
     (case full_bounds n h m of
        Inr fb \<Rightarrow> contains_point fb point \<and> \<not> isinstance (cls (h m)) Shadow
      | Inl e \<Rightarrow> False)"

text \<open>Two stores that differ at most in the \<open>broken\<close> lists.\<close>

definition broken_only :: "'b heap \<Rightarrow> 'b heap \<Rightarrow> bool" where
  "broken_only h h' = (\<forall>x. h' x = (h x)\<lparr>broken := broken (h' x)\<rparr>)"

subsection \<open>Hand\<close>

text \<open>
  The capability predicates are methods that some classes override.
  \<^verbatim>\<open>handles_mouse_click\<close> is \<open>True\<close> in Resizer, ColorPalette, Slider, Menu, Trigger,
  MenuItem, StringField and World, \<open>self.is_editable\<close> in String, and \<open>False\<close> in Morph; a
  class without a definition of its own takes the first one of its resolution order.
  \<^verbatim>\<open>wants_drop_of\<close> is \<open>True\<close> in Frame and World and \<open>False\<close> in Morph.
\<close>

definition handles_mouse_click :: "'a morph \<Rightarrow> bool" where
  "handles_mouse_click m =
     (if cls m \<in> {Resizer, ColorPalette, GrayPalette, Slider, Menu, SelectionMenu,
                    Trigger, MenuItem, StringField, World} then True
      else if cls m \<in> {String, Text} then is_editable m
      else False)"

definition wants_drop_of :: "'a morph \<Rightarrow> ref \<Rightarrow> bool" where
  "wants_drop_of m morph = (if isinstance (cls m) Frame then True else False)"

text \<open>
  \<^verbatim>\<open>Hand.morph_at_pointer\<close>: the children of the hand's world, last one first; the
  first one that contains the pointer, is not a Shadow and is visible answers with its
  \<^verbatim>\<open>morph_at\<close>; the world itself is the answer when no child matches. \<open>self.world\<close> is
  the attribute \<open>_world\<close>; on \<^verbatim>\<open>None\<close> the attribute access raises AttributeError.
\<close>

fun morph_at_pointer_scan ::
  "nat \<Rightarrow> 'a::{zero,plus,minus,uminus,ord} heap \<Rightarrow> 'a point \<Rightarrow> ref \<Rightarrow> ref list \<Rightarrow> error + ref option" where
  "morph_at_pointer_scan n h point w [] = Inr (Some w)"
| "morph_at_pointer_scan n h point w (m # ms) =
     bindE (full_bounds n h m) (\<lambda>fb.
       if contains_point fb point \<and> \<not> isinstance (cls (h m)) Shadow \<and> is_visible (h m)
       then morph_at n h m point
       else morph_at_pointer_scan n h point w ms)"

definition morph_at_pointer :: "nat \<Rightarrow> 'a::{zero,plus,minus,uminus,ord} heap \<Rightarrow> ref \<Rightarrow> error + ref option" where
  "morph_at_pointer n h self =
     (case hand_world (h self) of
        None \<Rightarrow> Inl AttributeError
      | Some w \<Rightarrow>
          morph_at_pointer_scan n h (origin (bounds (h self))) w (rev (children (h w))))"

fun all_morphs_scan ::
  "nat \<Rightarrow> 'a::{zero,plus,minus,uminus,ord} heap \<Rightarrow> 'a point \<Rightarrow> ref list \<Rightarrow> error + ref list" where
  "all_morphs_scan n h point [] = Inr []"
| "all_morphs_scan n h point (m # ms) =
     (if is_visible (h m) then
        bindE (full_bounds n h m) (\<lambda>fb.
          bindE (all_morphs_scan n h point ms) (\<lambda>answer.
            Inr (if contains_point fb point then m # answer else answer)))
      else all_morphs_scan n h point ms)"

definition all_morphs_at_pointer :: "nat \<Rightarrow> 'a::{zero,plus,minus,uminus,ord} heap \<Rightarrow> ref \<Rightarrow> error + ref list" where
  "all_morphs_at_pointer n h self =
     (case hand_world (h self) of
        None \<Rightarrow> Inl AttributeError
      | Some w \<Rightarrow>
          bindE (all_children n h w) (\<lambda>morphs.
            all_morphs_scan n h (origin (bounds (h self))) morphs))"

text \<open>
  \<^verbatim>\<open>drop_target_for\<close>: a \<^verbatim>\<open>while\<close> loop from the morph under the pointer up the parent
  references, until a morph wants the drop. The loop may run forever (the value
  \<open>None\<close>); it raises AttributeError when it reaches a \<^verbatim>\<open>None\<close> parent.
\<close>

partial_function (option) drop_walk ::
  "'a heap \<Rightarrow> ref \<Rightarrow> ref option \<Rightarrow> (error + ref) option" where
  "drop_walk h morph tgt =
     (case tgt of
        None \<Rightarrow> Some (Inl AttributeError)
      | Some t \<Rightarrow>
          if wants_drop_of (h t) morph = False then drop_walk h morph (parent (h t))
          else Some (Inr t))"

definition drop_target_for ::
  "nat \<Rightarrow> 'a::{zero,plus,minus,uminus,ord} heap \<Rightarrow> ref \<Rightarrow> ref \<Rightarrow> (error + ref) option" where
  "drop_target_for n h self morph =
     (case morph_at_pointer n h self of
        Inl e \<Rightarrow> Some (Inl e)
      | Inr tgt \<Rightarrow> drop_walk h morph tgt)"

text \<open>\<open>above h a w\<close>: \<open>w\<close> is \<open>a\<close> or one of its ancestors.\<close>

inductive above :: "'a heap \<Rightarrow> ref \<Rightarrow> ref \<Rightarrow> bool" for h :: "'a heap" where
  above_self: "above h a a"
| above_parent: "parent (h a) = Some p \<Longrightarrow> above h p w \<Longrightarrow> above h a w"

text \<open>
  \<^verbatim>\<open>Morph.delete\<close>, \<^verbatim>\<open>World.stop_editing\<close> and \<^verbatim>\<open>Morph.remove_shadow\<close>. The objects that
  the modelled code deletes are menus and the text cursor, which take \<^verbatim>\<open>delete\<close> from
  \<open>Morph\<close>.
\<close>

definition delete :: "nat \<Rightarrow> 'a::{zero,plus,minus,uminus,ord} heap \<Rightarrow> ref \<Rightarrow> error + 'a heap" where
  "delete n h self =
     (case parent (h self) of
        None \<Rightarrow> Inr h
      | Some _ \<Rightarrow>
          bindE (full_changed n h self) (\<lambda>h1.
            case parent (h1 self) of
              None \<Rightarrow> Inl AttributeError
            | Some p \<Rightarrow> remove_child h1 p self))"

definition stop_editing :: "nat \<Rightarrow> 'a::{zero,plus,minus,uminus,ord} heap \<Rightarrow> ref \<Rightarrow> error + 'a heap" where
  "stop_editing n h self =
     bindE (case text_cursor (h self) of None \<Rightarrow> Inr h | Some tc \<Rightarrow> delete n h tc) (\<lambda>h1.
       Inr (h1(self := (h1 self)\<lparr>keyboard_receiver := None\<rparr>)))"

definition remove_shadow :: "nat \<Rightarrow> 'a::{zero,plus,minus,uminus,ord} heap \<Rightarrow> ref \<Rightarrow> error + 'a heap" where
  "remove_shadow n h self =
     bindE (full_changed n h self) (\<lambda>h1.
       case get_shadow h1 self of
         None \<Rightarrow> Inr h1
       | Some shadow \<Rightarrow> remove_child h1 self shadow)"

text \<open>
  \<^verbatim>\<open>root_for_grab\<close> and \<^verbatim>\<open>all_parents\<close> recurse along the parent references, like
  \<^verbatim>\<open>root\<close>. Resizer and ColorPicker override \<^verbatim>\<open>root_for_grab\<close> to answer \<open>self\<close>.
\<close>

partial_function (option) root_for_grab :: "'a heap \<Rightarrow> ref \<Rightarrow> ref option" where
  "root_for_grab h self =
     (if cls (h self) = Resizer \<or> cls (h self) = ColorPicker then Some self
      else case parent (h self) of
             None \<Rightarrow> Some self
           | Some p \<Rightarrow> if isinstance (cls (h p)) Frame then Some self
                        else root_for_grab h p)"

partial_function (option) all_parents :: "'a heap \<Rightarrow> ref \<Rightarrow> ref list option" where
  "all_parents h self =
     (case parent (h self) of
        None \<Rightarrow> Some [self]
      | Some p \<Rightarrow> Option.bind (all_parents h p) (\<lambda>ps. Some (self # ps)))"

text \<open>
  \<^verbatim>\<open>while not morph.handles_mouse_click: morph = morph.parent\<close>, the loop of both event
  handlers.
\<close>

partial_function (option) click_walk :: "'a heap \<Rightarrow> ref option \<Rightarrow> (error + ref) option" where
  "click_walk h m =
     (case m of
        None \<Rightarrow> Some (Inl AttributeError)
      | Some x \<Rightarrow> if \<not> handles_mouse_click (h x) then click_walk h (parent (h x))
                   else Some (Inr x))"

text \<open>
  \<^verbatim>\<open>Hand.drop\<close>: the first child of the hand goes to its drop target; the hand reports
  damage, forgets its children and shrinks to the extent (0,0).
\<close>

definition drop :: "nat \<Rightarrow> 'a::{zero,plus,minus,uminus,ord} heap \<Rightarrow> ref \<Rightarrow> (error + 'a heap) option" where
  "drop n h self =
     (case children (h self) of
        [] \<Rightarrow> Some (Inr h)
      | morph # _ \<Rightarrow>
          (case drop_target_for n h self morph of
             None \<Rightarrow> None
           | Some (Inl e) \<Rightarrow> Some (Inl e)
           | Some (Inr tgt) \<Rightarrow>
               Some (bindE (changed n h self) (\<lambda>h1.
                     bindE (add h1 tgt morph) (\<lambda>h2.
                     bindE (changed n h2 morph) (\<lambda>h3.
                     bindE (remove_shadow n h3 morph) (\<lambda>h4.
                     set_extent n (h4(self := (h4 self)\<lparr>children := []\<rparr>)) self
                       (Point 0 0))))))))"

text \<open>
  A mouse event carries the position and the button. pygame numbers the buttons;
  \<open>BUTTON_OTHER\<close> stands for every number that is not one of the three named constants
  (the wheel, for one). The callbacks of the morphs (\<^verbatim>\<open>mouse_down_left\<close> and the others)
  are the behaviour of the widgets: the model records which callback is dispatched on
  which morph with which position, in the order of the calls, and does not run their
  bodies. No class of morphic.py overrides an up callback.
\<close>

datatype button = BUTTON_LEFT | BUTTON_MIDDLE | BUTTON_RIGHT | BUTTON_OTHER

record 'a event =
  pos :: "'a point"
  button :: button

datatype callback =
    mouse_down_left | mouse_up_left | mouse_click_left
  | mouse_down_middle | mouse_up_middle | mouse_click_middle
  | mouse_down_right | mouse_up_right | mouse_click_right

type_synonym 'a dispatch = "callback \<times> ref \<times> 'a point"

text \<open>
  The loop of \<^verbatim>\<open>process_mouse_down\<close> over the open menus: a menu that is not under the
  pointer gets its choice set to \<open>False\<close> if it is a SelectionMenu and is deleted if it
  is a temporary Menu.
\<close>

definition dismiss_menu :: "nat \<Rightarrow> ref \<Rightarrow> ref \<Rightarrow> 'a::{zero,plus,minus,uminus,ord} heap \<Rightarrow> error + 'a heap" where
  "dismiss_menu n self menu h =
     bindE (all_morphs_at_pointer n h self) (\<lambda>under.
       if menu \<in> set under then Inr h
       else if isinstance (cls (h menu)) SelectionMenu then
         Inr (h(menu := (h menu)\<lparr>choice := Some False\<rparr>))
       else if isinstance (cls (h menu)) Menu \<and> is_temporary (h menu) then delete n h menu
       else Inr h)"

definition down_dispatch :: "button \<Rightarrow> ref \<Rightarrow> 'a point \<Rightarrow> 'a dispatch list" where
  "down_dispatch b m p =
     (if b = BUTTON_LEFT then [(mouse_down_left, m, p)]
      else if b = BUTTON_MIDDLE then [(mouse_down_middle, m, p)]
      else if b = BUTTON_RIGHT then [(mouse_down_right, m, p)]
      else [])"

definition process_mouse_down ::
  "nat \<Rightarrow> 'a::{zero,plus,minus,uminus,ord} heap \<Rightarrow> ref \<Rightarrow> 'a event
     \<Rightarrow> (error + 'a heap \<times> 'a dispatch list) option" where
  "process_mouse_down n h self ev =
     (if children (h self) \<noteq> [] then
        map_option (map_sum id (\<lambda>h'. (h', []))) (drop n h self)
      else
        case morph_at_pointer n h self of
          Inl e \<Rightarrow> Some (Inl e)
        | Inr morph \<Rightarrow>
        case hand_world (h self) of
          None \<Rightarrow> Some (Inl AttributeError)
        | Some w \<Rightarrow>
        case foldE (dismiss_menu n self) (open_menus (h w)) h of
          Inl e \<Rightarrow> Some (Inl e)
        | Inr h1 \<Rightarrow>
        case (case text_cursor (h1 w) of
                None \<Rightarrow> Inr h1
              | Some tc \<Rightarrow> if morph \<noteq> target (h1 tc) then stop_editing n h1 w else Inr h1) of
          Inl e \<Rightarrow> Some (Inl e)
        | Inr h2 \<Rightarrow>
        case morph of
          None \<Rightarrow> Some (Inl AttributeError)
        | Some m \<Rightarrow>
        case root_for_grab h2 m of
          None \<Rightarrow> Some (Inl RecursionError)
        | Some g \<Rightarrow>
        let h3 = h2(self := (h2 self)\<lparr>morph_to_grab := Some g\<rparr>) in
        case click_walk h3 (Some m) of
          None \<Rightarrow> None
        | Some (Inl e) \<Rightarrow> Some (Inl e)
        | Some (Inr x) \<Rightarrow>
            Some (Inr (h3(self := (h3 self)\<lparr>mouse_down_morph := Some x\<rparr>),
                       down_dispatch (button ev) x (pos ev))))"





text \<open>
  The hand is idle in the world \<open>w\<close>: the store satisfies the tree invariant, the world
  of the hand is \<open>w\<close>, a World without parent whose tree fits the recursion budget, and
  the hand holds no morph.
\<close>

definition idle_hand :: "nat \<Rightarrow> 'a heap \<Rightarrow> ref \<Rightarrow> ref \<Rightarrow> bool" where
  "idle_hand n h self w =
     (tree_inv h \<and> hand_world (h self) = Some w \<and> isinstance (cls (h w)) World
      \<and> parent (h w) = None \<and> depth_within n h w \<and> children (h self) = [])"


section \<open>Example scenes\<close>

text \<open>
  \<open>new_morph k\<close> is an object of class \<open>k\<close> as \<^verbatim>\<open>Morph.__init__\<close> leaves it: no parent,
  no children, bounds from (0,0) to (50,40), visible. \<open>scene\<close> is a World (object 0) of
  extent (610,314) with two children, the morphs 1 and 2; morph 2 has the child 3; object
  4 is the Hand of the World, at (25,25). In \<open>drag_scene\<close> the Hand has picked up morph 3.
\<close>

definition new_morph :: "klass \<Rightarrow> int morph" where
  "new_morph k =
     \<lparr>cls = k, parent = None, children = [],
      bounds = Rectangle (Point 0 0) (Point 50 40),
      is_visible = True, is_editable = False, is_temporary = False, choice = None,
      target = None, hand_world = None, mouse_down_morph = None, morph_to_grab = None,
      broken = [], open_menus = [], text_cursor = None, keyboard_receiver = None,
      is_dev_mode = True\<rparr>"

definition scene :: "int heap" where
  "scene =
     (\<lambda>_. new_morph Morph)
     (0 := (new_morph World)\<lparr>children := [1, 2],
                              bounds := Rectangle (Point 0 0) (Point 610 314)\<rparr>,
      1 := (new_morph Morph)\<lparr>parent := Some 0\<rparr>,
      2 := (new_morph Morph)\<lparr>parent := Some 0, children := [3],
                              bounds := Rectangle (Point 10 10) (Point 60 50)\<rparr>,
      3 := (new_morph Morph)\<lparr>parent := Some 2,
                              bounds := Rectangle (Point 20 20) (Point 30 30)\<rparr>,
      4 := (new_morph Hand)\<lparr>hand_world := Some 0,
                             bounds := Rectangle (Point 25 25) (Point 25 25)\<rparr>)"

definition drag_scene :: "int heap" where
  "drag_scene =
     scene
     (2 := (scene 2)\<lparr>children := []\<rparr>,
      3 := (scene 3)\<lparr>parent := Some 4\<rparr>,
      4 := (scene 4)\<lparr>children := [3]\<rparr>)"


text \<open>
  \<open>menu_scene\<close> is a World (object 0) with an open temporary Menu (object 5) that holds
  a MenuItem (object 6); the Hand (object 4) is at (25,25), over the item.
  \<open>pressed_scene\<close> is \<open>menu_scene\<close> after a button has gone down there.
\<close>

definition menu_scene :: "int heap" where
  "menu_scene =
     (\<lambda>_. new_morph Morph)
     (0 := (new_morph World)\<lparr>children := [5], open_menus := [5],
                              bounds := Rectangle (Point 0 0) (Point 610 314)\<rparr>,
      4 := (new_morph Hand)\<lparr>hand_world := Some 0,
                             bounds := Rectangle (Point 25 25) (Point 25 25)\<rparr>,
      5 := (new_morph Menu)\<lparr>parent := Some 0, children := [6], is_temporary := True,
                             bounds := Rectangle (Point 0 0) (Point 100 100)\<rparr>,
      6 := (new_morph MenuItem)\<lparr>parent := Some 5,
                                 bounds := Rectangle (Point 10 10) (Point 90 30)\<rparr>)"

definition pressed_scene :: "int heap" where
  "pressed_scene =
     menu_scene(4 := (menu_scene 4)\<lparr>morph_to_grab := Some 5, mouse_down_morph := Some 6\<rparr>)"

text \<open>
  \<open>float_scene\<close> is \<open>scene\<close> with float coordinates: \<open>map_coords f\<close> applies \<open>f\<close> to every
  coordinate of a morph.
\<close>

definition map_point :: "('a \<Rightarrow> 'b) \<Rightarrow> 'a point \<Rightarrow> 'b point" where
  "map_point f p = Point (f (px p)) (f (py p))"

definition map_rectangle :: "('a \<Rightarrow> 'b) \<Rightarrow> 'a rectangle \<Rightarrow> 'b rectangle" where
  "map_rectangle f r = Rectangle (map_point f (origin r)) (map_point f (corner r))"

definition map_coords :: "('a \<Rightarrow> 'b) \<Rightarrow> 'a morph \<Rightarrow> 'b morph" where
  "map_coords f m =
     \<lparr>cls = cls m, parent = parent m, children = children m,
      bounds = map_rectangle f (bounds m),
      is_visible = is_visible m, is_editable = is_editable m,
      is_temporary = is_temporary m, choice = choice m, target = target m,
      hand_world = hand_world m, mouse_down_morph = mouse_down_morph m,
      morph_to_grab = morph_to_grab m,
      broken = map (map_rectangle f) (broken m), open_menus = open_menus m,
      text_cursor = text_cursor m, keyboard_receiver = keyboard_receiver m,
      is_dev_mode = is_dev_mode m\<rparr>"

definition float_scene :: "pyfloat heap" where
  "float_scene = (\<lambda>x. map_coords (\<lambda>i. Finite (of_int i)) (scene x))"

text \<open>
  \<open>cursor_scene\<close> is a World (object 0) in which the String 8 is being edited: the
  TextCursor 7 sits beside it, and the Hand (object 4) is at (25,25), over the cursor.
  \<open>editing_scene\<close> is the same World with the Hand at (10,25), over the String, and
  \<open>clicked_scene\<close> is \<open>editing_scene\<close> after a button has gone down there.
\<close>

definition cursor_scene :: "int heap" where
  "cursor_scene =
     (\<lambda>_. new_morph Morph)
     (0 := (new_morph World)\<lparr>children := [8, 7], text_cursor := Some 7,
                              keyboard_receiver := Some 7,
                              bounds := Rectangle (Point 0 0) (Point 610 314)\<rparr>,
      4 := (new_morph Hand)\<lparr>hand_world := Some 0,
                             bounds := Rectangle (Point 25 25) (Point 25 25)\<rparr>,
      7 := (new_morph TextCursor)\<lparr>parent := Some 0, target := Some 8,
                                   bounds := Rectangle (Point 24 20) (Point 26 40)\<rparr>,
      8 := (new_morph String)\<lparr>parent := Some 0, is_editable := True,
                               bounds := Rectangle (Point 0 20) (Point 24 40)\<rparr>)"



text \<open>\<open>hidden_scene\<close> is \<open>scene\<close> with morph 3, the child of morph 2, hidden.\<close>

definition hidden_scene :: "int heap" where
  "hidden_scene = scene(3 := (scene 3)\<lparr>is_visible := False\<rparr>)"

section \<open>Properties of the geometry\<close>

lemmas point_defs =
  Point_def point_lt_def point_le_def point_max_def point_min_def
  point_add_def point_sub_def point_neg_def py_max_def py_min_def

lemmas rectangle_defs =
  Rectangle_def extent_def intersect_def merge_def contains_point_def
  contains_rectangle_def translate_by_def

lemma py_max_linorder: "py_max a b = max a (b :: 'a::linorder)"
  by (auto simp: py_max_def max_def)

lemma py_min_linorder: "py_min a b = min a (b :: 'a::linorder)"
  by (auto simp: py_min_def min_def)

text \<open>
  C7. Containment of a point is half-open: \<open>R.contains_point(p)\<close> holds exactly when
  \<open>R.origin \<le> p\<close> and \<open>p < R.corner\<close> in both components. The rectangle from (0,0) to
  (10,10) does not contain (10,5) and contains (9,9).
\<close>

theorem contains_point_half_open:
  "(contains_point R p
      = ((px (origin R) \<le> px p \<and> py (origin R) \<le> py p)
         \<and> (px p < px (corner R) \<and> py p < py (corner R))))
   \<and> contains_point (Rectangle (Point 0 0) (Point 10 10)) (Point (10::int) 5) = False
   \<and> contains_point (Rectangle (Point 0 0) (Point 10 10)) (Point (9::int) 9) = True"
  by (simp add: point_defs rectangle_defs)

text \<open>
  C8. The intersection of two rectangles is contained in both of them, and their merge
  contains both of them, in the sense of \<open>contains_rectangle\<close>.
\<close>

theorem intersect_merge_containment:
  fixes A B :: "'a::{linorder,zero,plus,minus,uminus} rectangle"
  shows "contains_rectangle A (intersect A B) \<and> contains_rectangle B (intersect A B)
   \<and> contains_rectangle (merge A B) A \<and> contains_rectangle (merge A B) B"
  by (simp add: Point_def point_le_def point_max_def point_min_def rectangle_defs
        py_max_linorder py_min_linorder)

text \<open>
  C9. The claim says that \<open>rotate\<close> turns a point by a quarter turn about \<open>center\<close> for
  \<open>'right'\<close> and \<open>'left'\<close>. The code builds the turned offset from \<open>offset.y\<close> twice
  (\<^verbatim>\<open>Point(-offset.y, offset.y)\<close>), so the \<open>x\<close> component of the offset is lost: the point
  (1,0) turned about (0,0) is sent to the centre itself by both directions, where a quarter
  turn answers (0,1) or (0,-1). The numeric branch never reads \<open>center\<close>: a half turn
  (180 degrees) of (1,0) about (5,5) answers (-1,0), the half turn about the origin, while
  the \<open>'pi'\<close> branch answers the reflection (9,10) through the centre.
\<close>

theorem rotate_quarter_turn_loses_x:
  "rotate (Point 1 0) (Str ''right'') (Point 0 0) = Some (Point 0 0)
   \<and> rotate (Point 1 0) (Str ''left'') (Point 0 0) = Some (Point 0 0)
   \<and> rotate (Point 1 0) (Num 180) (Point 5 5) = Some (Point (- 1) 0)
   \<and> rotate (Point 1 0) (Str ''pi'') (Point 5 5) = Some (Point 9 10)"
  by (simp add: rotate_def radians_def point_defs)

section \<open>Properties of the tree\<close>

lemma add_child_parent: "parent (add_child h P m m) = Some P"
  by (simp add: add_child_def Let_def)

lemma add_child_children:
  "children (add_child h P m q) = (if q = P then children (h P) @ [m] else children (h q))"
  by (simp add: add_child_def Let_def)

lemma remove_child_children:
  "remove_child h p m = Inr h1 \<Longrightarrow>
   children (h1 q) = (if q = p then remove1 m (children (h p)) else children (h q))"
  by (auto simp: remove_child_def Let_def split: if_splits)

lemma Morph_add_reparents:
  assumes "tree_inv h"
  shows "\<exists>h'. Morph_add h P m = Inr h' \<and> parent (h' m) = Some P
     \<and> count_list (children (h' P)) m = 1 \<and> last (children (h' P)) = m
     \<and> (\<forall>q. q \<noteq> P \<longrightarrow> m \<notin> set (children (h' q)))"
proof (cases "parent (h m)")
  case None
  from assms have "\<And>q. (parent (h m) = Some q) = (m \<in> set (children (h q)))"
    unfolding tree_inv_def by blast
  with None have nowhere: "\<And>q. m \<notin> set (children (h q))"
    by simp
  show ?thesis using None nowhere
    by (simp add: Morph_add_def add_child_parent add_child_children count_list_0_iff)
next
  case (Some p)
  from assms have iff: "\<And>q. (parent (h m) = Some q) = (m \<in> set (children (h q)))"
    and dist: "distinct (children (h p))"
    unfolding tree_inv_def by blast+
  from iff[of p] Some have inp: "m \<in> set (children (h p))" by simp
  have only: "m \<notin> set (children (h q))" if "q \<noteq> p" for q
    using iff[of q] Some that by auto
  obtain h1 where h1: "remove_child h p m = Inr h1"
    using inp by (simp add: remove_child_def Let_def)
  have gone: "\<And>q. m \<notin> set (children (h1 q))"
    using only dist by (auto simp: remove_child_children[OF h1])
  show ?thesis using Some h1 gone
    by (simp add: Morph_add_def bindE_def add_child_parent add_child_children count_list_0_iff)
qed

lemma tree_inv_open_menus:
  "tree_inv h \<Longrightarrow> tree_inv (h(w := (h w)\<lparr>open_menus := ms\<rparr>))"
  by (simp add: tree_inv_def)

lemma scene_tree_inv: "tree_inv scene"
  unfolding tree_inv_def scene_def new_morph_def by (auto split: if_splits)

text \<open>
  C1. In a store that satisfies the tree invariant, \<open>P.add(m)\<close> returns, and afterwards
  the parent of \<open>m\<close> is \<open>P\<close>, the children of \<open>P\<close> name \<open>m\<close> exactly once, as their last
  element, and no other node's children name \<open>m\<close>: the former parent of \<open>m\<close>, if it had
  one, has lost it. \<open>P\<close> and \<open>m\<close> are any two objects, of any class.
\<close>

theorem add_reparents:
  assumes "tree_inv h"
  shows "\<exists>h'. add h P m = Inr h' \<and> parent (h' m) = Some P
     \<and> count_list (children (h' P)) m = 1 \<and> last (children (h' P)) = m
     \<and> (\<forall>q. q \<noteq> P \<longrightarrow> m \<notin> set (children (h' q)))"
proof (cases "isinstance (cls (h P)) World")
  case True
  let ?h1 = "if isinstance (cls (h m)) Menu
             then h(P := (h P)\<lparr>open_menus := open_menus (h P) @ [m]\<rparr>) else h"
  have "tree_inv ?h1" using assms by (simp add: tree_inv_open_menus)
  from Morph_add_reparents[OF this, of P m] show ?thesis
    using True by (simp add: add_def World_add_def)
next
  case False
  with Morph_add_reparents[OF assms, of P m] show ?thesis
    by (simp add: add_def)
qed

text \<open>
  In the example scene, morph 3 (a child of morph 2) is added to morph 1, and morph 2
  loses it.
\<close>

theorem add_reparents_witness:
  "tree_inv scene
   \<and> (\<exists>h'. add scene 1 3 = Inr h' \<and> parent (h' 3) = Some 1
        \<and> count_list (children (h' 1)) 3 = 1 \<and> last (children (h' 1)) = 3
        \<and> (\<forall>q. q \<noteq> 1 \<longrightarrow> 3 \<notin> set (children (h' q))))"
  using add_reparents[OF scene_tree_inv, of 1 3] scene_tree_inv by blast


section \<open>Damage reports and resizing\<close>

lemma rooted_root: "rooted h a \<Longrightarrow> \<exists>r. root h a = Some r \<and> parent (h r) = None"
  by (induction rule: rooted.induct) (simp_all add: root.simps)

lemma rooted_cong:
  assumes "\<And>x. parent (h' x) = parent (h x)"
  shows "rooted h a \<Longrightarrow> rooted h' a"
  by (induction rule: rooted.induct) (auto intro: rooted.intros simp: assms)

lemma root_cong:
  assumes "\<And>x. parent (h' x) = parent (h x)"
  shows "rooted h a \<Longrightarrow> root h' a = root h a"
  by (induction rule: rooted.induct) (simp_all add: root.simps assms)

lemma foldE_cong_set:
  "(\<And>x s. x \<in> set xs \<Longrightarrow> f x s = g x s) \<Longrightarrow> foldE f xs s = foldE g xs s"
  by (induction xs arbitrary: s) (auto split: sum.splits)

lemma foldE_total:
  "(\<And>x s. x \<in> set xs \<Longrightarrow> \<exists>s'. f x s = Inr s') \<Longrightarrow> \<exists>s'. foldE f xs s = Inr s'"
proof (induction xs arbitrary: s)
  case Nil
  then show ?case by simp
next
  case (Cons x xs)
  then obtain s1 where "f x s = Inr s1" by fastforce
  moreover have "\<exists>s'. foldE f xs s1 = Inr s'" using Cons by simp
  ultimately show ?case by simp
qed

lemma get_shadow_cong:
  assumes "\<And>x. children (h' x) = children (h x)" "\<And>x. cls (h' x) = cls (h x)"
  shows "get_shadow h' a = get_shadow h a"
  by (simp add: get_shadow_def assms)

lemma full_bounds_cong:
  assumes "\<And>x. children (h' x) = children (h x)" "\<And>x. cls (h' x) = cls (h x)"
    "\<And>x. bounds (h' x) = bounds (h x)"
  shows "full_bounds n h' a = full_bounds n h a"
proof (induction n arbitrary: a)
  case 0
  then show ?case by simp
next
  case (Suc n)
  then have "full_bounds n h' = full_bounds n h" by (intro ext)
  then show ?case
    by (simp add: assms get_shadow_cong[of h' h, OF assms(1,2)] split: option.splits)
qed

lemma depth_within_cong:
  assumes "\<And>x. children (h' x) = children (h x)"
  shows "depth_within n h' a = depth_within n h a"
proof (induction n arbitrary: a)
  case 0
  then show ?case by simp
next
  case (Suc n)
  then have "depth_within n h' = depth_within n h" by (intro ext)
  then show ?case by (simp add: assms)
qed

lemma full_bounds_total: "depth_within n h a \<Longrightarrow> \<exists>b. full_bounds n h a = Inr b"
proof (induction n arbitrary: a)
  case 0
  then show ?case by simp
next
  case (Suc n)
  show ?case
  proof (cases "isinstance (cls (h a)) Frame")
    case True
    then show ?thesis by (simp split: option.splits)
  next
    case False
    have "\<exists>s'. foldE (\<lambda>child result. bindE (full_bounds n h child) (\<lambda>b. Inr (merge result b)))
              (children (h a)) (bounds (h a)) = Inr s'"
    proof (rule foldE_total)
      fix x s assume "x \<in> set (children (h a))"
      with Suc.prems have "depth_within n h x" by (simp add: list_all_iff)
      from Suc.IH[OF this] show "\<exists>s'. bindE (full_bounds n h x) (\<lambda>b. Inr (merge s b)) = Inr s'"
        by (auto simp: bindE_def)
    qed
    with False show ?thesis by simp
  qed
qed

lemma broken_only_refl: "broken_only h h"
  by (simp add: broken_only_def)

lemma broken_only_report: "broken_only h (report h w r)"
  by (simp add: broken_only_def report_def)

lemma broken_only_fields:
  assumes "broken_only h h'"
  shows "parent (h' x) = parent (h x)" "children (h' x) = children (h x)"
    "cls (h' x) = cls (h x)" "bounds (h' x) = bounds (h x)"
    "hand_world (h' x) = hand_world (h x)"
proof -
  from assms have e: "h' x = (h x)\<lparr>broken := broken (h' x)\<rparr>"
    by (simp add: broken_only_def)
  show "parent (h' x) = parent (h x)" by (subst e) simp
  show "children (h' x) = children (h x)" by (subst e) simp
  show "cls (h' x) = cls (h x)" by (subst e) simp
  show "bounds (h' x) = bounds (h x)" by (subst e) simp
  show "hand_world (h' x) = hand_world (h x)" by (subst e) simp
qed

lemma changed_returns:
  assumes "rooted h a" "depth_within n h a"
  shows "\<exists>h'. changed n h a = Inr h' \<and> broken_only h h'"
proof (cases "isinstance (cls (h a)) Hand")
  case True
  from full_bounds_total[OF assms(2)] obtain b where "full_bounds n h a = Inr b" by blast
  with True show ?thesis
    by (auto simp: changed_def Hand_changed_def bindE_def broken_only_refl broken_only_report
             split: option.splits)
next
  case False
  from rooted_root[OF assms(1)] obtain r where "root h a = Some r" by blast
  with False show ?thesis
    by (auto simp: changed_def Morph_changed_def broken_only_refl broken_only_report)
qed

lemma set_corner_fields:
  "parent (set_corner h a c x) = parent (h x)"
  "children (set_corner h a c x) = children (h x)"
  "bounds (set_corner h a c a) = (bounds (h a))\<lparr>corner := c\<rparr>"
  by (simp_all add: set_corner_def)

lemma bracket_returns:
  assumes "rooted h a" "depth_within n h a"
  shows "\<exists>h'. bindE (changed n h a) (\<lambda>h1. changed n (set_corner h1 a (f h1)) a) = Inr h'
           \<and> (\<exists>h1. bounds (h1 a) = bounds (h a)
                \<and> bounds (h' a) = (bounds (h a))\<lparr>corner := f h1\<rparr>)
           \<and> (\<forall>x. parent (h' x) = parent (h x)) \<and> (\<forall>x. children (h' x) = children (h x))"
proof -
  from changed_returns[OF assms] obtain h1 where
    h1: "changed n h a = Inr h1" and b1: "broken_only h h1" by blast
  let ?h2 = "set_corner h1 a (f h1)"
  have par2: "\<And>x. parent (?h2 x) = parent (h x)"
    and ch2: "\<And>x. children (?h2 x) = children (h x)"
    by (simp_all add: set_corner_fields broken_only_fields[OF b1])
  have "rooted ?h2 a" using rooted_cong[of ?h2 h a] par2 assms(1) by simp
  moreover have "depth_within n ?h2 a"
    using depth_within_cong[of ?h2 h n a] ch2 assms(2) by simp
  ultimately obtain h3 where h3: "changed n ?h2 a = Inr h3" and b3: "broken_only ?h2 h3"
    using changed_returns by blast
  have "bounds (h3 a) = (bounds (h a))\<lparr>corner := f h1\<rparr>"
    by (simp add: broken_only_fields[OF b3] set_corner_fields broken_only_fields[OF b1])
  moreover have "bounds (h1 a) = bounds (h a)" by (simp add: broken_only_fields[OF b1])
  ultimately show ?thesis
    using h1 h3 par2 ch2 by (auto simp: bindE_def broken_only_fields[OF b3])
qed

lemma set_width_returns:
  assumes "rooted h a" "depth_within n h a"
  shows "\<exists>h'. set_width n h a w = Inr h'
           \<and> bounds (h' a) = (bounds (h a))
                \<lparr>corner := Point (px (origin (bounds (h a))) + w) (py (corner (bounds (h a))))\<rparr>
           \<and> (\<forall>x. parent (h' x) = parent (h x)) \<and> (\<forall>x. children (h' x) = children (h x))"
  using bracket_returns[OF assms,
      of "\<lambda>h1. Point (px (origin (bounds (h1 a))) + w) (py (corner (bounds (h1 a))))"]
  unfolding set_width_def by auto

lemma set_height_returns:
  assumes "rooted h a" "depth_within n h a"
  shows "\<exists>h'. set_height n h a w = Inr h'
           \<and> bounds (h' a) = (bounds (h a))
                \<lparr>corner := Point (px (corner (bounds (h a)))) (py (origin (bounds (h a))) + w)\<rparr>
           \<and> (\<forall>x. parent (h' x) = parent (h x)) \<and> (\<forall>x. children (h' x) = children (h x))"
  using bracket_returns[OF assms,
      of "\<lambda>h1. Point (px (corner (bounds (h1 a)))) (py (origin (bounds (h1 a))) + w)"]
  unfolding set_height_def by auto

lemma set_extent_corner:
  assumes "rooted h self" "depth_within n h self"
  shows "\<exists>h'. set_extent n h self p = Inr h'
           \<and> origin (bounds (h' self)) = origin (bounds (h self))
           \<and> corner (bounds (h' self))
               = Point (px (origin (bounds (h self))) + py_max (px p) 0)
                       (py (origin (bounds (h self))) + py_max (py p) 0)"
proof -
  from set_width_returns[OF assms, of "py_max (px p) 0"] obtain h1 where
    h1: "set_width n h self (py_max (px p) 0) = Inr h1"
    and b1: "bounds (h1 self) = (bounds (h self))
          \<lparr>corner := Point (px (origin (bounds (h self))) + py_max (px p) 0)
                            (py (corner (bounds (h self))))\<rparr>"
    and par1: "\<And>x. parent (h1 x) = parent (h x)"
    and ch1: "\<And>x. children (h1 x) = children (h x)"
    by blast
  have "rooted h1 self" using rooted_cong[of h1 h self] par1 assms(1) by simp
  moreover have "depth_within n h1 self"
    using depth_within_cong[of h1 h n self] ch1 assms(2) by simp
  ultimately obtain h2 where
    h2: "set_height n h1 self (py_max (py p) 0) = Inr h2"
    and b2: "bounds (h2 self) = (bounds (h1 self))
          \<lparr>corner := Point (px (corner (bounds (h1 self))))
                            (py (origin (bounds (h1 self))) + py_max (py p) 0)\<rparr>"
    using set_height_returns[of h1 self n "py_max (py p) 0"] by blast
  show ?thesis
    using h1 h2 by (simp add: set_extent_def bindE_def b2 b1 Point_def)
qed

text \<open>
  C10, amended. For every morph whose parent chain ends and whose subtree fits the
  recursion budget, and for every point \<open>p\<close>, \<open>set_extent(p)\<close> returns; afterwards the
  origin of the morph is the one it had and its corner is the origin plus
  \<open>(max(p.x, 0), max(p.y, 0))\<close>, the sum taken in the arithmetic of the coordinates. The
  extent is the corner minus the origin: it is \<open>(max(p.x, 0), max(p.y, 0))\<close> if the
  coordinates are numbers on which adding \<open>b\<close> to \<open>a\<close> and subtracting \<open>a\<close> gives back
  \<open>b\<close> (Python integers; not floats, whose sums are rounded).
\<close>

theorem set_extent_clamps:
  fixes h :: "'a::{zero,plus,minus,uminus,ord} heap"
  assumes "rooted h self" "depth_within n h self"
  shows "\<exists>h'. set_extent n h self p = Inr h'
           \<and> origin (bounds (h' self)) = origin (bounds (h self))
           \<and> corner (bounds (h' self))
               = Point (px (origin (bounds (h self))) + py_max (px p) 0)
                       (py (origin (bounds (h self))) + py_max (py p) 0)
           \<and> ((\<forall>a b :: 'a. (a + b) - a = b) \<longrightarrow>
                extent (bounds (h' self)) = Point (py_max (px p) 0) (py_max (py p) 0))"
proof -
  from set_extent_corner[OF assms, of p] obtain h' where
    h': "set_extent n h self p = Inr h'"
    and o: "origin (bounds (h' self)) = origin (bounds (h self))"
    and c: "corner (bounds (h' self))
               = Point (px (origin (bounds (h self))) + py_max (px p) 0)
                       (py (origin (bounds (h self))) + py_max (py p) 0)"
    by blast
  have "extent (bounds (h' self)) = Point (py_max (px p) 0) (py_max (py p) 0)"
    if "\<forall>a b :: 'a. (a + b) - a = b"
    using that by (simp add: extent_def point_sub_def o c Point_def)
  with h' o c show ?thesis by blast
qed

lemma scene_rooted_3: "rooted scene 3"
proof -
  have "rooted scene 0" by (rule rooted_top) (simp add: scene_def new_morph_def)
  then have "rooted scene 2" by (rule rooted_up[rotated]) (simp add: scene_def new_morph_def)
  then show ?thesis by (rule rooted_up[rotated]) (simp add: scene_def new_morph_def)
qed

lemma scene_depth_3: "depth_within 1 scene 3"
  by (simp add: scene_def new_morph_def)

text \<open>
  Morph 3 of the example scene, with integer coordinates, resized to (-5, 7), gets the
  extent (0, 7).
\<close>

theorem set_extent_clamps_witness:
  "rooted scene 3 \<and> depth_within 1 scene 3 \<and> (\<forall>a b :: int. (a + b) - a = b)
   \<and> py_max (- 5) (0 :: int) = 0 \<and> py_max 7 (0 :: int) = 7
   \<and> (\<exists>h'. set_extent 1 scene 3 (Point (- 5) 7) = Inr h'
         \<and> extent (bounds (h' 3)) = Point 0 7
         \<and> origin (bounds (h' 3)) = Point 20 20
         \<and> corner (bounds (h' 3)) = Point 20 27)"
proof -
  have e: "\<forall>a b :: int. (a + b) - a = b" by simp
  from set_extent_clamps[OF scene_rooted_3 scene_depth_3, of "Point (- 5) 7"] e
  obtain h' where "set_extent 1 scene 3 (Point (- 5) 7) = Inr h'"
    "origin (bounds (h' 3)) = origin (bounds (scene 3))"
    "corner (bounds (h' 3))
       = Point (px (origin (bounds (scene 3))) + py_max (px (Point (- 5) 7)) 0)
               (py (origin (bounds (scene 3))) + py_max (py (Point (- 5) 7)) 0)"
    "extent (bounds (h' 3))
       = Point (py_max (px (Point (- 5) 7)) 0) (py_max (py (Point (- 5) 7)) 0)"
    by blast
  then have "\<exists>h'. set_extent 1 scene 3 (Point (- 5) 7) = Inr h'
         \<and> extent (bounds (h' 3)) = Point 0 7
         \<and> origin (bounds (h' 3)) = Point 20 20
         \<and> corner (bounds (h' 3)) = Point 20 27"
    by (simp add: scene_def new_morph_def py_max_def Point_def Rectangle_def)
  then show ?thesis
    using scene_rooted_3 scene_depth_3 e by (simp add: py_max_def)
qed

text \<open>
  C5, amended. For every morph whose parent chain ends, \<open>full_changed()\<close>, and for every
  morph that is not the Hand also \<open>changed()\<close>, finds the root \<open>w\<close> of the morph. If \<open>w\<close>
  is a World, the call appends the morph's bounds (the full bounds for \<open>full_changed\<close>,
  when the subtree fits the recursion budget) to the \<open>broken\<close> list of \<open>w\<close> and changes
  nothing else in the store. If \<open>w\<close> is not a World, the call returns the store as it
  was: nothing is appended anywhere and no exception is raised.
\<close>

theorem changed_reports_to_world_root:
  assumes "rooted h a"
  shows "\<exists>w. root h a = Some w \<and> parent (h w) = None \<and>
     (if isinstance (cls (h w)) World then
        (\<not> isinstance (cls (h a)) Hand \<longrightarrow>
           changed n h a = Inr (h(w := (h w)\<lparr>broken := broken (h w) @ [bounds (h a)]\<rparr>)))
        \<and> (depth_within n h a \<longrightarrow>
             (\<exists>fb. full_bounds n h a = Inr fb
               \<and> full_changed n h a = Inr (h(w := (h w)\<lparr>broken := broken (h w) @ [fb]\<rparr>))))
      else
        (\<not> isinstance (cls (h a)) Hand \<longrightarrow> changed n h a = Inr h)
        \<and> full_changed n h a = Inr h)"
proof -
  from rooted_root[OF assms] obtain w where w: "root h a = Some w" "parent (h w) = None"
    by blast
  show ?thesis
  proof (cases "isinstance (cls (h w)) World")
    case True
    have "\<exists>fb. full_bounds n h a = Inr fb
            \<and> full_changed n h a = Inr (h(w := (h w)\<lparr>broken := broken (h w) @ [fb]\<rparr>))"
      if "depth_within n h a"
    proof -
      from full_bounds_total[OF that] obtain fb where "full_bounds n h a = Inr fb" by blast
      then show ?thesis using w True by (simp add: full_changed_def bindE_def report_def)
    qed
    then show ?thesis
      using w True by (simp add: changed_def Morph_changed_def report_def)
  next
    case False
    then show ?thesis
      using w by (simp add: changed_def Morph_changed_def full_changed_def)
  qed
qed

lemma root_scene_3: "root scene 3 = Some 0"
  by (simp add: root.simps scene_def new_morph_def)

lemma scene_fields:
  "cls (scene 0) = World" "cls (scene 3) = Morph" "children (scene 3) = []"
  "bounds (scene 3) = Rectangle (Point 20 20) (Point 30 30)" "broken (scene 0) = []"
  by (simp_all add: scene_def new_morph_def)

text \<open>Morph 3 of the example scene reports its bounds to the World, object 0.\<close>

theorem changed_reports_to_world_root_witness:
  "rooted scene 3 \<and> \<not> isinstance (cls (scene 3)) Hand \<and> depth_within 1 scene 3
   \<and> isinstance (cls (scene 0)) World
   \<and> changed 1 scene 3
       = Inr (scene(0 := (scene 0)\<lparr>broken := [Rectangle (Point 20 20) (Point 30 30)]\<rparr>))
   \<and> full_changed 1 scene 3
       = Inr (scene(0 := (scene 0)\<lparr>broken := [Rectangle (Point 20 20) (Point 30 30)]\<rparr>))"
proof -
  have fb: "full_bounds 1 scene 3 = Inr (Rectangle (Point 20 20) (Point 30 30))"
    by (simp add: scene_fields isinstance_def)
  from changed_reports_to_world_root[OF scene_rooted_3, of 1]
  show ?thesis
    using scene_rooted_3 scene_depth_3 fb
    by (simp add: root_scene_3 scene_fields isinstance_def)
qed

text \<open>
  C5 as stated fails for the Hand, which overrides \<open>changed()\<close>. In \<open>drag_scene\<close> the
  Hand (object 4) has no parent: it is its own root, and that root is not a World. The
  claim makes \<open>changed()\<close> a no-op there; the code appends the Hand's full bounds to
  the \<open>broken\<close> list of the Hand's world, object 0.
\<close>

theorem hand_changed_ignores_root:
  "root drag_scene 4 = Some 4 \<and> \<not> isinstance (cls (drag_scene 4)) World
   \<and> broken (drag_scene 0) = []
   \<and> (case changed 2 drag_scene 4 of Inl e \<Rightarrow> [] | Inr h' \<Rightarrow> broken (h' 0))
       = [Rectangle (Point 20 20) (Point 30 30)]"
  by (simp add: root.simps drag_scene_def scene_def new_morph_def isinstance_def
        changed_def Hand_changed_def bindE_def report_def eval_nat_numeral
        point_defs rectangle_defs)


section \<open>Moving a morph and back\<close>

lemma translate_all_Nil [simp]: "translate_all d [] h = h"
  by (simp add: translate_all_def)














lemma rooted_all_cong:
  assumes "\<And>x. parent (h' x) = parent (h x)" "\<forall>b. rooted h b"
  shows "\<forall>b. rooted h' b"
  using assms rooted_cong[of h' h] by blast




lemma scene_parents:
  "parent (scene 0) = None" "parent (scene 1) = Some 0" "parent (scene 2) = Some 0"
  "parent (scene 3) = Some 2" "parent (scene 4) = None"
  "\<And>b. 4 < b \<Longrightarrow> parent (scene b) = None"
  by (simp_all add: scene_def new_morph_def)

lemma scene_all_rooted: "\<forall>b. rooted scene b"
proof
  fix b :: nat
  have r0: "rooted scene 0" using rooted_top[of scene 0] scene_parents(1) by simp
  have r2: "rooted scene 2" using rooted_up[of scene 2 0] scene_parents(3) r0 by simp
  consider "b = 0" | "b = 1" | "b = 2" | "b = 3" | "b = 4" | "4 < b" by linarith
  then show "rooted scene b"
  proof cases
    case 1 then show ?thesis using r0 by simp
  next
    case 2 then show ?thesis using rooted_up[of scene 1 0] scene_parents(2) r0 by simp
  next
    case 3 then show ?thesis using r2 by simp
  next
    case 4 then show ?thesis using rooted_up[of scene 3 2] scene_parents(4) r2 by simp
  next
    case 5 then show ?thesis using rooted_top[of scene 4] scene_parents(5) by simp
  next
    case 6 then show ?thesis using rooted_top[of scene b] scene_parents(6) by simp
  qed
qed




section \<open>Hit-testing\<close>

lemma depth_within_Suc: "depth_within n h a \<Longrightarrow> depth_within (Suc n) h a"
proof (induction n arbitrary: a)
  case 0
  then show ?case by simp
next
  case (Suc n)
  have "\<forall>c\<in>set (children (h a)). depth_within n h c"
    using Suc.prems by (simp add: list_all_iff)
  then have "\<forall>c\<in>set (children (h a)). depth_within (Suc n) h c"
    using Suc.IH by blast
  then show ?case by (subst depth_within.simps) (simp only: list_all_iff)
qed

lemma foldE_extend_prefix:
  assumes "foldE (\<lambda>child result. bindE (f child) (\<lambda>cs. Inr (result @ cs))) xs acc = Inr r"
  shows "\<exists>t. r = acc @ t \<and> (\<forall>m\<in>set t. \<exists>c\<in>set xs. \<exists>cs. f c = Inr cs \<and> m \<in> set cs)"
  using assms
proof (induction xs arbitrary: acc)
  case Nil
  then show ?case by simp
next
  case (Cons x xs)
  from Cons.prems obtain cs where cs: "f x = Inr cs"
    and rest: "foldE (\<lambda>child result. bindE (f child) (\<lambda>cs. Inr (result @ cs))) xs (acc @ cs) = Inr r"
    by (auto simp: bindE_def split: sum.splits)
  from Cons.IH[OF rest] obtain t where
    t: "r = (acc @ cs) @ t" "\<forall>m\<in>set t. \<exists>c\<in>set xs. \<exists>cs. f c = Inr cs \<and> m \<in> set cs" by blast
  have "r = acc @ (cs @ t)" using t(1) by simp
  moreover have "\<forall>m\<in>set (cs @ t). \<exists>c\<in>set (x # xs). \<exists>cs. f c = Inr cs \<and> m \<in> set cs"
    using cs t(2) by auto
  ultimately show ?case by blast
qed

lemma all_children_total: "depth_within n h a \<Longrightarrow> \<exists>ms. all_children n h a = Inr ms"
proof (induction n arbitrary: a)
  case 0
  then show ?case by simp
next
  case (Suc n)
  have "\<exists>s'. foldE (\<lambda>child result. bindE (all_children n h child) (\<lambda>cs. Inr (result @ cs)))
           (children (h a)) [a] = Inr s'"
  proof (rule foldE_total)
    fix x s assume "x \<in> set (children (h a))"
    with Suc.prems have "depth_within n h x" by (simp add: list_all_iff)
    from Suc.IH[OF this]
    show "\<exists>s'. bindE (all_children n h x) (\<lambda>cs. Inr (s @ cs)) = Inr s'"
      by (auto simp: bindE_def)
  qed
  then show ?case by simp
qed

lemma all_children_head:
  "all_children n h a = Inr ms \<Longrightarrow> \<exists>t. ms = a # t"
proof (cases n)
  case 0
  assume "all_children n h a = Inr ms"
  with 0 show ?thesis by simp
next
  case (Suc k)
  assume "all_children n h a = Inr ms"
  with Suc foldE_extend_prefix[of "all_children k h" "children (h a)" "[a]" ms]
  show ?thesis by auto
qed

lemma all_children_depth:
  "depth_within n h a \<Longrightarrow> all_children n h a = Inr ms \<Longrightarrow> m \<in> set ms \<Longrightarrow> depth_within n h m"
proof (induction n arbitrary: a ms m)
  case 0
  then show ?case by simp
next
  case (Suc n)
  from Suc.prems(2) foldE_extend_prefix[of "all_children n h" "children (h a)" "[a]" ms]
  obtain t where t: "ms = [a] @ t"
    "\<forall>m\<in>set t. \<exists>c\<in>set (children (h a)). \<exists>cs. all_children n h c = Inr cs \<and> m \<in> set cs"
    by auto
  show ?case
  proof (cases "m = a")
    case True
    then show ?thesis using Suc.prems(1) by simp
  next
    case False
    with Suc.prems(3) t obtain c cs where c: "c \<in> set (children (h a))"
      "all_children n h c = Inr cs" "m \<in> set cs" by auto
    from Suc.prems(1) c(1) have "depth_within n h c" by (simp add: list_all_iff)
    from Suc.IH[OF this c(2,3)] show ?thesis by (rule depth_within_Suc)
  qed
qed

lemma morph_at_scan_find:
  assumes "\<forall>m\<in>set ms. depth_within n h m"
  shows "morph_at_scan n h pt ms = Inr (find (hits n h pt) ms)"
  using assms
proof (induction ms)
  case Nil
  then show ?case by simp
next
  case (Cons m ms)
  then have "depth_within n h m" by simp
  from full_bounds_total[OF this] obtain fb where "full_bounds n h m = Inr fb" by blast
  then show ?case using Cons by (simp add: bindE_def hits_def)
qed

lemma morph_at_find:
  assumes "depth_within n h a" "all_children n h a = Inr ms"
  shows "morph_at n h a pt = Inr (find (hits n h pt) (rev ms))"
proof -
  have "\<forall>m\<in>set (rev ms). depth_within n h m"
    using all_children_depth[OF assms] by simp
  from morph_at_scan_find[OF this] show ?thesis
    using assms(2) by (simp add: morph_at_def bindE_def)
qed

lemma foldE_append:
  "foldE f (xs @ ys) s = (case foldE f xs s of Inl e \<Rightarrow> Inl e | Inr s' \<Rightarrow> foldE f ys s')"
  by (induction xs arbitrary: s) (auto split: sum.splits)

lemma find_in_set: "find P xs = Some r \<Longrightarrow> r \<in> set xs \<and> P r"
  by (induction xs) (auto split: if_splits)

lemma find_exists: "x \<in> set xs \<Longrightarrow> P x \<Longrightarrow> \<exists>r. find P xs = Some r"
  by (induction xs) auto

lemma find_append_first:
  "find P xs = Some r \<Longrightarrow> find P (xs @ ys) = Some r"
  by (induction xs) (auto split: if_splits)

lemma all_children_last_child:
  assumes "children (h a) = cs @ [B]" "all_children n h a = Inr ms"
  shows "\<exists>k pre bs. n = Suc k \<and> ms = pre @ bs \<and> all_children k h B = Inr bs"
proof (cases n)
  case 0
  with assms(2) show ?thesis by simp
next
  case (Suc k)
  with assms show ?thesis
    by (auto simp: foldE_append bindE_def split: sum.splits)
qed

lemma all_children_leaf:
  "children (h B) = [] \<Longrightarrow> all_children k h B = Inr bs \<Longrightarrow> bs = [B]"
  by (cases k) auto

text \<open>
  C2, amended. Let the subtree of \<open>self\<close> fit the recursion budget, let \<open>ms\<close> be its
  \<open>all_children\<close> list and let every morph of \<open>ms\<close> be visible. Then \<open>morph_at(point)\<close>
  returns the first morph of the reversed list that is visible, is not a Shadow and
  whose full bounds contain the point, and \<^verbatim>\<open>None\<close> if there is none. If no morph other
  than \<open>self\<close> matches, it returns \<open>self\<close> when \<open>self\<close> matches and \<^verbatim>\<open>None\<close> otherwise. If
  \<open>B\<close> is the last child of \<open>self\<close> and \<open>B\<close> matches, the answer is a morph of the subtree of
  \<open>B\<close>, whatever the earlier siblings of \<open>B\<close> contain, and it is \<open>B\<close> itself when \<open>B\<close> has no
  children.
\<close>

theorem morph_at_front_most:
  assumes dp: "depth_within n h self"
    and ac: "all_children n h self = Inr ms"
    and vis: "\<forall>m\<in>set ms. is_visible (h m)"
  shows "morph_at n h self pt = Inr (find (\<lambda>m. is_visible (h m) \<and> hits n h pt m) (rev ms))
     \<and> ((\<forall>m\<in>set ms. m \<noteq> self \<longrightarrow> \<not> hits n h pt m) \<longrightarrow>
          morph_at n h self pt = Inr (if hits n h pt self then Some self else None))
     \<and> (\<forall>cs B. children (h self) = cs @ [B] \<and> hits n h pt B \<longrightarrow>
          (\<exists>r k bs. morph_at n h self pt = Inr (Some r)
             \<and> all_children k h B = Inr bs \<and> r \<in> set bs
             \<and> (children (h B) = [] \<longrightarrow> r = B)))"
proof (intro conjI allI impI)
  have m: "morph_at n h self pt = Inr (find (hits n h pt) (rev ms))"
    by (rule morph_at_find[OF dp ac])
  have "find (hits n h pt) (rev ms) = find (\<lambda>m. is_visible (h m) \<and> hits n h pt m) (rev ms)"
    using vis by (intro find_cong) auto
  with m show "morph_at n h self pt
      = Inr (find (\<lambda>m. is_visible (h m) \<and> hits n h pt m) (rev ms))" by simp
  from all_children_head[OF ac] have self_in: "self \<in> set ms" by auto
  show "morph_at n h self pt = Inr (if hits n h pt self then Some self else None)"
    if none: "\<forall>m\<in>set ms. m \<noteq> self \<longrightarrow> \<not> hits n h pt m"
  proof (cases "hits n h pt self")
    case True
    from find_exists[of self "rev ms" "hits n h pt"] self_in True
    obtain r where r: "find (hits n h pt) (rev ms) = Some r" by auto
    from find_in_set[OF r] none have "r = self" by auto
    with r m True show ?thesis by simp
  next
    case False
    with none have "\<forall>m\<in>set (rev ms). \<not> hits n h pt m" by auto
    then have "find (hits n h pt) (rev ms) = None" by (simp add: find_None_iff)
    with m False show ?thesis by simp
  qed
  show "\<exists>r k bs. morph_at n h self pt = Inr (Some r)
             \<and> all_children k h B = Inr bs \<and> r \<in> set bs
             \<and> (children (h B) = [] \<longrightarrow> r = B)"
    if B: "children (h self) = cs @ [B] \<and> hits n h pt B" for cs B
  proof -
    from all_children_last_child[OF _ ac, of cs B] B obtain k pre bs where
      k: "n = Suc k" "ms = pre @ bs" "all_children k h B = Inr bs" by blast
    from all_children_head[OF k(3)] have Bin: "B \<in> set (rev bs)" by auto
    from find_exists[OF Bin, of "hits n h pt"] B
    obtain r where r: "find (hits n h pt) (rev bs) = Some r" by auto
    have "find (hits n h pt) (rev ms) = Some r"
      using find_append_first[OF r, of "rev pre"] k(2) by simp
    moreover from find_in_set[OF r] have rin: "r \<in> set bs" by simp
    moreover have "r = B" if "children (h B) = []"
      using all_children_leaf[OF that k(3)] rin by simp
    ultimately show ?thesis using m k(3) by auto
  qed
qed

lemma fuel_numeral:
  "all_children (numeral k) h a =
     foldE (\<lambda>child result. bindE (all_children (pred_numeral k) h child) (\<lambda>cs. Inr (result @ cs)))
           (children (h a)) [a]"
  "full_bounds (numeral k) h a =
     (if isinstance (cls (h a)) Frame then
        (case get_shadow h a of
           Some shadow \<Rightarrow> Inr (merge (bounds (h a)) (bounds (h shadow)))
         | None \<Rightarrow> Inr (bounds (h a)))
      else
        foldE (\<lambda>child result. bindE (full_bounds (pred_numeral k) h child) (\<lambda>b. Inr (merge result b)))
              (children (h a)) (bounds (h a)))"
  "depth_within (numeral k) h a = list_all (depth_within (pred_numeral k) h) (children (h a))"
  by (simp_all add: numeral_eq_Suc)

lemma scene_cls:
  "cls (scene 0) = World" "cls (scene (Suc 0)) = Morph" "cls (scene 2) = Morph"
  "cls (scene 3) = Morph" "cls (scene 4) = Hand"
  by (simp_all add: scene_def new_morph_def)

lemma scene_children:
  "children (scene 0) = [1, 2]" "children (scene (Suc 0)) = []" "children (scene 2) = [3]"
  "children (scene 3) = []" "children (scene 4) = []"
  by (simp_all add: scene_def new_morph_def)

lemma scene_bounds:
  "bounds (scene 0) = Rectangle (Point 0 0) (Point 610 314)"
  "bounds (scene (Suc 0)) = Rectangle (Point 0 0) (Point 50 40)"
  "bounds (scene 2) = Rectangle (Point 10 10) (Point 60 50)"
  "bounds (scene 3) = Rectangle (Point 20 20) (Point 30 30)"
  by (simp_all add: scene_def new_morph_def)

lemma scene_visible:
  "is_visible (scene 0)" "is_visible (scene (Suc 0))" "is_visible (scene 2)" "is_visible (scene 3)"
  by (simp_all add: scene_def new_morph_def)

lemma scene_all_children: "all_children 3 scene 0 = Inr [0, 1, 2, 3]"
  by (simp add: fuel_numeral scene_children bindE_def)

lemma scene_depth_0: "depth_within 3 scene 0"
  by (simp add: fuel_numeral scene_children)

lemma scene_full_bounds:
  "full_bounds 3 scene 0 = Inr (Rectangle (Point 0 0) (Point 610 314))"
  "full_bounds 3 scene (Suc 0) = Inr (Rectangle (Point 0 0) (Point 50 40))"
  "full_bounds 3 scene 2 = Inr (Rectangle (Point 10 10) (Point 60 50))"
  "full_bounds 3 scene 3 = Inr (Rectangle (Point 20 20) (Point 30 30))"
  by (simp_all add: fuel_numeral scene_children scene_cls scene_bounds bindE_def
        isinstance_def get_shadow_def point_defs rectangle_defs)

lemma scene_hits:
  "hits 3 scene (Point 25 25) (Suc 0)" "hits 3 scene (Point 25 25) 2" "hits 3 scene (Point 25 25) 3"
  "\<not> hits 3 scene (Point 0 0) 3"
  by (simp_all add: hits_def scene_full_bounds scene_cls isinstance_def point_defs rectangle_defs)

text \<open>
  The World of the example scene and the point (25,25), which lies in the morphs 1, 2
  and 3.
\<close>

theorem morph_at_front_most_witness:
  "depth_within 3 scene 0 \<and> all_children 3 scene 0 = Inr [0, 1, 2, 3]
   \<and> list_all (\<lambda>m. is_visible (scene m)) [0, 1, 2, 3]
   \<and> children (scene 0) = [1] @ [2] \<and> hits 3 scene (Point 25 25) 2
   \<and> morph_at 3 scene 0 (Point 25 25)
       = Inr (find (\<lambda>m. is_visible (scene m) \<and> hits 3 scene (Point 25 25) m) (rev [0, 1, 2, 3]))
   \<and> (\<exists>r k bs. morph_at 3 scene 0 (Point 25 25) = Inr (Some r)
         \<and> all_children k scene 2 = Inr bs \<and> r \<in> set bs)"
proof -
  have vis: "\<forall>m\<in>set [0, 1, 2, 3]. is_visible (scene m)"
    by (simp add: scene_visible)
  have va: "list_all (\<lambda>m. is_visible (scene m)) [0, 1, 2, 3]"
    by (simp add: scene_visible)
  have ch: "children (scene 0) = [1] @ [2]" by (simp add: scene_children)
  note th = morph_at_front_most[OF scene_depth_0 scene_all_children vis, of "Point 25 25"]
  from th have p1: "morph_at 3 scene 0 (Point 25 25)
       = Inr (find (\<lambda>m. is_visible (scene m) \<and> hits 3 scene (Point 25 25) m) (rev [0, 1, 2, 3]))"
    by (rule conjunct1)
  from th have "\<forall>cs B. children (scene 0) = cs @ [B] \<and> hits 3 scene (Point 25 25) B \<longrightarrow>
          (\<exists>r k bs. morph_at 3 scene 0 (Point 25 25) = Inr (Some r)
             \<and> all_children k scene B = Inr bs \<and> r \<in> set bs
             \<and> (children (scene B) = [] \<longrightarrow> r = B))"
    by (elim conjE)
  then have "\<exists>r k bs. morph_at 3 scene 0 (Point 25 25) = Inr (Some r)
             \<and> all_children k scene 2 = Inr bs \<and> r \<in> set bs
             \<and> (children (scene 2) = [] \<longrightarrow> r = 2)"
    using ch scene_hits(2) by (elim allE[of _ "[1]"] allE[of _ 2]) (rule mp, assumption, rule conjI)
  then have p3: "\<exists>r k bs. morph_at 3 scene 0 (Point 25 25) = Inr (Some r)
         \<and> all_children k scene 2 = Inr bs \<and> r \<in> set bs"
    by (elim exE conjE) (intro exI conjI)
  show ?thesis
    using scene_depth_0 scene_all_children va ch scene_hits(2) p1 p3
    by (intro conjI)
qed

text \<open>
  C2 as stated fails twice. The morphs 1 and 2 are siblings, 1 added before 2, and both
  contain (25,25): the claim makes \<open>morph_at\<close> return 2, the code returns 3, the child of
  2. And morph 3 does not contain (0,0) and has no children: the claim makes \<open>morph_at\<close>
  fall through to morph 3 itself, the code returns \<^verbatim>\<open>None\<close>.
\<close>

theorem morph_at_descendant_before_sibling:
  "children (scene 0) = [1, 2]
   \<and> hits 3 scene (Point 25 25) 1 \<and> hits 3 scene (Point 25 25) 2
   \<and> morph_at 3 scene 0 (Point 25 25) = Inr (Some 3)
   \<and> morph_at 3 scene 3 (Point 0 0) = Inr None"
proof -
  have a3: "all_children 3 scene 3 = Inr [3]"
    by (simp add: fuel_numeral scene_children)
  have "morph_at 3 scene 0 (Point 25 25) = Inr (Some 3)"
    by (simp add: morph_at_def scene_all_children bindE_def scene_full_bounds scene_cls
          isinstance_def point_defs rectangle_defs)
  moreover have "morph_at 3 scene 3 (Point 0 0) = Inr None"
    by (simp add: morph_at_def a3 bindE_def scene_full_bounds scene_cls
          isinstance_def point_defs rectangle_defs)
  ultimately show ?thesis
    using scene_hits by (simp add: scene_children)
qed


lemma hidden_scene_facts:
  "cls (hidden_scene 0) = World" "cls (hidden_scene (Suc 0)) = Morph"
  "cls (hidden_scene 2) = Morph" "cls (hidden_scene 3) = Morph"
  "children (hidden_scene 0) = [Suc 0, 2]" "children (hidden_scene (Suc 0)) = []"
  "children (hidden_scene 2) = [3]" "children (hidden_scene 3) = []"
  "bounds (hidden_scene 2) = Rectangle (Point 10 10) (Point 60 50)"
  "bounds (hidden_scene 3) = Rectangle (Point 20 20) (Point 30 30)"
  "bounds (hidden_scene 4) = Rectangle (Point 25 25) (Point 25 25)"
  "is_visible (hidden_scene 2)" "\<not> is_visible (hidden_scene 3)"
  "hand_world (hidden_scene 4) = Some 0"
  by (simp_all add: hidden_scene_def scene_def new_morph_def)

text \<open>
  The loop of \<^verbatim>\<open>morph_at\<close> does not read \<open>is_visible\<close>: a hidden morph inside a visible
  one is hit, by \<^verbatim>\<open>morph_at\<close> and so by the hand's \<^verbatim>\<open>morph_at_pointer\<close>, which tests the
  visibility of the World's children only.
\<close>

lemma hidden_morph_is_hit:
  "\<not> is_visible (hidden_scene 3)
   \<and> morph_at 3 hidden_scene 2 (Point 25 25) = Inr (Some 3)
   \<and> morph_at_pointer 3 hidden_scene 4 = Inr (Some 3)"
  by (simp add: morph_at_pointer_def morph_at_def hidden_scene_facts fuel_numeral bindE_def
        isinstance_def point_defs rectangle_defs)

section \<open>Float coordinates\<close>


lemma float_sums_extent:
  "Finite 20 + Finite (3602879701896397 / 36028797018963968)
     = Finite (2828823515942093 / 140737488355328)"
  "Finite (2828823515942093 / 140737488355328) - Finite 20
     = Finite (14073748835533 / 140737488355328)"
  "Finite 20 + Finite 7 = Finite 27"
  "Finite 27 - Finite 20 = Finite 7"
  "(Finite (3602879701896397 / 36028797018963968) < (0::pyfloat)) = False"
  "(Finite 7 < (0::pyfloat)) = False"
  by code_simp+

lemma float_scene_fields:
  "parent (float_scene x) = parent (scene x)"
  "children (float_scene x) = children (scene x)"
  "cls (float_scene x) = cls (scene x)"
  "bounds (float_scene x) = map_rectangle (\<lambda>i. Finite (of_int i)) (bounds (scene x))"
  by (simp_all add: float_scene_def map_coords_def)

lemma float_scene_all_rooted: "\<forall>b. rooted float_scene b"
  using rooted_all_cong[of float_scene scene, OF float_scene_fields(1) scene_all_rooted] .


lemma float_scene_depth_3: "depth_within 1 float_scene 3"
  using depth_within_cong[of float_scene scene 1 3, OF float_scene_fields(2)] scene_depth_3
  by simp




text \<open>
  C10 as stated, for every point, fails for float coordinates. Morph 3 of the example
  scene, with the float origin (20.0, 20.0), is resized with \<open>set_extent(Point(0.1, 7.0))\<close>:
  the call returns, and the extent is then \<open>(0.10000000000000142, 7.0)\<close>, not
  \<open>(0.1, 7.0)\<close>. The float \<open>0.1\<close> is \<open>3602879701896397 / 2^55\<close>.
\<close>

theorem set_extent_rounds:
  "(case set_extent 1 float_scene 3
           (Point (Finite (3602879701896397 / 36028797018963968)) (Finite 7)) of
      Inl e \<Rightarrow> None
    | Inr h' \<Rightarrow> Some (extent (bounds (h' 3))))
   = Some (Point (Finite (14073748835533 / 140737488355328)) (Finite 7))
   \<and> Finite (14073748835533 / 140737488355328)
       \<noteq> Finite (3602879701896397 / 36028797018963968)
   \<and> py_max (Finite (3602879701896397 / 36028797018963968)) 0
       = Finite (3602879701896397 / 36028797018963968)"
proof -
  let ?p = "Point (Finite (3602879701896397 / 36028797018963968)) (Finite 7)"
  from set_extent_corner[OF float_scene_all_rooted[rule_format] float_scene_depth_3, of ?p]
  obtain h' where h': "set_extent 1 float_scene 3 ?p = Inr h'"
    and o: "origin (bounds (h' 3)) = origin (bounds (float_scene 3))"
    and c: "corner (bounds (h' 3))
               = Point (px (origin (bounds (float_scene 3))) + py_max (px ?p) 0)
                       (py (origin (bounds (float_scene 3))) + py_max (py ?p) 0)"
    by blast
  have b3: "origin (bounds (float_scene 3)) = Point (Finite 20) (Finite 20)"
    by (simp add: float_scene_fields scene_bounds map_rectangle_def map_point_def
          Rectangle_def Point_def)
  have "extent (bounds (h' 3)) = Point (Finite (14073748835533 / 140737488355328)) (Finite 7)"
    by (simp add: extent_def point_sub_def o c b3 Point_def py_max_def float_sums_extent
          del: plus_pyfloat.simps)
  moreover have "py_max (Finite (3602879701896397 / 36028797018963968)) 0
       = Finite (3602879701896397 / 36028797018963968)"
    by (simp add: py_max_def float_sums_extent)
  ultimately show ?thesis using h' by simp
qed


section \<open>Drop targets\<close>

lemma above_trans: "above h a b \<Longrightarrow> above h b c \<Longrightarrow> above h a c"
  by (induction rule: above.induct) (auto intro: above.intros)

lemma tree_inv_child_parent:
  "tree_inv h \<Longrightarrow> c \<in> set (children (h p)) \<Longrightarrow> parent (h c) = Some p"
  unfolding tree_inv_def by blast

lemma all_children_above:
  assumes "tree_inv h"
  shows "all_children n h a = Inr ms \<Longrightarrow> m \<in> set ms \<Longrightarrow> above h m a"
proof (induction n arbitrary: a ms m)
  case 0
  then show ?case by simp
next
  case (Suc n)
  from Suc.prems(1) foldE_extend_prefix[of "all_children n h" "children (h a)" "[a]" ms]
  obtain t where t: "ms = [a] @ t"
    "\<forall>m\<in>set t. \<exists>c\<in>set (children (h a)). \<exists>cs. all_children n h c = Inr cs \<and> m \<in> set cs"
    by auto
  show ?case
  proof (cases "m = a")
    case True
    then show ?thesis by (simp add: above_self)
  next
    case False
    with Suc.prems(2) t obtain c cs where c: "c \<in> set (children (h a))"
      "all_children n h c = Inr cs" "m \<in> set cs" by auto
    have "above h m c" using Suc.IH[OF c(2,3)] .
    moreover have "above h c a"
      using tree_inv_child_parent[OF assms c(1)] by (auto intro: above.intros)
    ultimately show ?thesis by (rule above_trans)
  qed
qed

lemma children_depth:
  "depth_within n h w \<Longrightarrow> c \<in> set (children (h w)) \<Longrightarrow> depth_within n h c"
proof (cases n)
  case 0
  assume "depth_within n h w"
  with 0 show ?thesis by simp
next
  case (Suc k)
  assume "depth_within n h w" "c \<in> set (children (h w))"
  with Suc have "depth_within k h c" by (simp add: list_all_iff)
  with Suc show ?thesis by (simp only: depth_within_Suc)
qed

lemma morph_at_above:
  assumes "tree_inv h" "depth_within n h m" "hits n h pt m"
  shows "\<exists>r. morph_at n h m pt = Inr (Some r) \<and> above h r m"
proof -
  from all_children_total[OF assms(2)] obtain ms where ms: "all_children n h m = Inr ms"
    by blast
  from all_children_head[OF ms] have "m \<in> set (rev ms)" by auto
  from find_exists[OF this, of "hits n h pt"] assms(3)
  obtain r where r: "find (hits n h pt) (rev ms) = Some r" by auto
  from find_in_set[OF r] have "r \<in> set ms" by simp
  from all_children_above[OF assms(1) ms this] morph_at_find[OF assms(2) ms, of pt] r
  show ?thesis by simp
qed

lemma morph_at_pointer_scan_above:
  assumes "tree_inv h" "depth_within n h w" "set cs \<subseteq> set (children (h w))"
  shows "\<exists>x. morph_at_pointer_scan n h pt w cs = Inr (Some x) \<and> above h x w"
  using assms(3)
proof (induction cs)
  case Nil
  then show ?case by (simp add: above_self)
next
  case (Cons m cs)
  then have mw: "m \<in> set (children (h w))" by simp
  have dm: "depth_within n h m" by (rule children_depth[OF assms(2) mw])
  from full_bounds_total[OF dm] obtain fb where fb: "full_bounds n h m = Inr fb" by blast
  show ?case
  proof (cases "contains_point fb pt \<and> \<not> isinstance (cls (h m)) Shadow \<and> is_visible (h m)")
    case True
    then have "hits n h pt m" using fb by (simp add: hits_def)
    from morph_at_above[OF assms(1) dm this] obtain r where
      r: "morph_at n h m pt = Inr (Some r)" "above h r m" by blast
    have "above h m w"
      using tree_inv_child_parent[OF assms(1) mw] by (auto intro: above.intros)
    with r(2) have "above h r w" by (rule above_trans)
    with r(1) True fb show ?thesis by (simp add: bindE_def)
  next
    case False
    from Cons have "\<exists>x. morph_at_pointer_scan n h pt w cs = Inr (Some x) \<and> above h x w"
      by simp
    moreover have "morph_at_pointer_scan n h pt w (m # cs) = morph_at_pointer_scan n h pt w cs"
      using False fb by (auto simp: bindE_def)
    ultimately show ?thesis by simp
  qed
qed

lemma morph_at_pointer_above:
  assumes "tree_inv h" "hand_world (h self) = Some w" "depth_within n h w"
  shows "\<exists>x. morph_at_pointer n h self = Inr (Some x) \<and> above h x w"
  using morph_at_pointer_scan_above[OF assms(1,3), of "rev (children (h w))"] assms(2)
  by (simp add: morph_at_pointer_def)

lemma drop_walk_above:
  "above h x w \<Longrightarrow> wants_drop_of (h w) morph \<Longrightarrow>
   \<exists>t. drop_walk h morph (Some x) = Some (Inr t) \<and> wants_drop_of (h t) morph"
proof (induction rule: above.induct)
  case (above_self a)
  then show ?case by (subst drop_walk.simps) simp
next
  case (above_parent a p w)
  then show ?case by (subst drop_walk.simps) auto
qed

text \<open>
  C3. Let the store satisfy the tree invariant, let the world of the hand be a World
  and let the tree below it fit the recursion budget. Then for every dragged morph
  \<open>drop_target_for\<close> returns: the hit-test answers a morph below the World or the World
  itself, the walk up the parents from there ends, raises nothing, and the morph it
  returns wants the drop. The walk cannot run out of ancestors because it passes the
  World, which always wants the drop.
\<close>

theorem drop_target_for_returns_acceptor:
  assumes "tree_inv h"
    and "hand_world (h self) = Some w" and "isinstance (cls (h w)) World"
    and "depth_within n h w"
  shows "\<exists>t. drop_target_for n h self morph = Some (Inr t) \<and> wants_drop_of (h t) morph"
proof -
  from morph_at_pointer_above[OF assms(1,2,4)] obtain x where
    x: "morph_at_pointer n h self = Inr (Some x)" "above h x w" by blast
  have "isinstance (cls (h w)) Frame"
    using assms(3) by (cases "cls (h w)") (simp_all add: isinstance_def)
  then have "wants_drop_of (h w) morph" by (simp add: wants_drop_of_def)
  from drop_walk_above[OF x(2) this] x(1) show ?thesis
    by (simp add: drop_target_for_def)
qed

lemma drag_scene_tree_inv: "tree_inv drag_scene"
  unfolding tree_inv_def drag_scene_def scene_def new_morph_def by (auto split: if_splits)

lemma drag_scene_facts:
  "hand_world (drag_scene 4) = Some 0" "cls (drag_scene 0) = World"
  "children (drag_scene 0) = [Suc 0, 2]" "children (drag_scene (Suc 0)) = []"
  "children (drag_scene 2) = []"
  by (simp_all add: drag_scene_def scene_def new_morph_def)

lemma drag_scene_depth: "depth_within 3 drag_scene 0"
  by (simp add: fuel_numeral drag_scene_facts)

text \<open>In \<open>drag_scene\<close> the Hand holds morph 3 over the morphs 1 and 2 of the World.\<close>

theorem drop_target_for_returns_acceptor_witness:
  "tree_inv drag_scene \<and> hand_world (drag_scene 4) = Some 0
   \<and> isinstance (cls (drag_scene 0)) World \<and> depth_within 3 drag_scene 0
   \<and> (\<exists>t. drop_target_for 3 drag_scene 4 3 = Some (Inr t) \<and> wants_drop_of (drag_scene t) 3)"
proof -
  have w: "isinstance (cls (drag_scene 0)) World"
    by (simp add: drag_scene_facts isinstance_def)
  from drop_target_for_returns_acceptor
         [OF drag_scene_tree_inv drag_scene_facts(1) w drag_scene_depth, of 3]
  show ?thesis
    using drag_scene_tree_inv drag_scene_facts(1) w drag_scene_depth by (intro conjI)
qed

lemma menu_scene_tree_inv: "tree_inv menu_scene"
  unfolding tree_inv_def menu_scene_def new_morph_def by (auto split: if_splits)

lemma pressed_scene_tree_inv: "tree_inv pressed_scene"
  using menu_scene_tree_inv by (simp add: tree_inv_def pressed_scene_def)

lemma pressed_scene_facts:
  "hand_world (pressed_scene 4) = Some 0" "cls (pressed_scene 0) = World"
  "parent (pressed_scene 0) = None" "children (pressed_scene 4) = []"
  "children (pressed_scene 0) = [5]" "children (pressed_scene 5) = [6]"
  "children (pressed_scene 6) = []"
  "cls (pressed_scene 5) = Menu" "cls (pressed_scene 6) = MenuItem"
  "parent (pressed_scene 5) = Some 0" "parent (pressed_scene 6) = Some 5"
  "bounds (pressed_scene 4) = Rectangle (Point 25 25) (Point 25 25)"
  "bounds (pressed_scene 5) = Rectangle (Point 0 0) (Point 100 100)"
  "bounds (pressed_scene 6) = Rectangle (Point 10 10) (Point 90 30)"
  "is_visible (pressed_scene 5)" "is_visible (pressed_scene 6)"
  "mouse_down_morph (pressed_scene 4) = Some 6"
  by (simp_all add: pressed_scene_def menu_scene_def new_morph_def)

lemma pressed_scene_depth: "depth_within 3 pressed_scene 0"
  by (simp add: fuel_numeral pressed_scene_facts)




section \<open>Clicks\<close>



lemma click_walk_result:
  assumes "click_walk h m = Some y"
  shows "\<forall>x. y = Inr x \<longrightarrow> handles_mouse_click (h x)"
  by (rule click_walk.raw_induct
        [where P = "\<lambda>h m y. \<forall>x. y = Inr x \<longrightarrow> handles_mouse_click (h x)", OF _ assms])
     (auto split: option.splits if_splits)

lemma click_walk_handles:
  "click_walk h m = Some (Inr x) \<Longrightarrow> handles_mouse_click (h x)"
  using click_walk_result by blast

lemma handles_mouse_click_upd [simp]:
  "handles_mouse_click (m\<lparr>mouse_down_morph := v\<rparr>) = handles_mouse_click m"
  by (simp add: handles_mouse_click_def)



































lemma cursor_scene_facts:
  "hand_world (cursor_scene 4) = Some 0" "cls (cursor_scene 0) = World"
  "parent (cursor_scene 0) = None" "children (cursor_scene 4) = []"
  "children (cursor_scene 0) = [8, 7]" "children (cursor_scene 7) = []"
  "children (cursor_scene 8) = []"
  "cls (cursor_scene 7) = TextCursor" "cls (cursor_scene 8) = String"
  "parent (cursor_scene 7) = Some 0" "parent (cursor_scene 8) = Some 0"
  "bounds (cursor_scene 4) = Rectangle (Point 25 25) (Point 25 25)"
  "bounds (cursor_scene 0) = Rectangle (Point 0 0) (Point 610 314)"
  "bounds (cursor_scene 7) = Rectangle (Point 24 20) (Point 26 40)"
  "bounds (cursor_scene 8) = Rectangle (Point 0 20) (Point 24 40)"
  "is_visible (cursor_scene 0)" "is_visible (cursor_scene 7)" "is_visible (cursor_scene 8)"
  "open_menus (cursor_scene 0) = []" "text_cursor (cursor_scene 0) = Some 7"
  "target (cursor_scene 7) = Some 8" "broken (cursor_scene 0) = []"
  by (simp_all add: cursor_scene_def new_morph_def)

lemma cursor_scene_tree_inv: "tree_inv cursor_scene"
  unfolding tree_inv_def cursor_scene_def new_morph_def by (auto split: if_splits)

lemma cursor_scene_all_children:
  "children (cursor_scene b) = (if b = 0 then [8, 7] else [])"
  by (simp add: cursor_scene_def new_morph_def)

lemma cursor_scene_all_depth: "\<forall>b. depth_within 3 cursor_scene b"
  by (simp add: fuel_numeral cursor_scene_all_children)

lemma cursor_scene_parents:
  "\<And>b. b \<notin> {7, 8} \<Longrightarrow> parent (cursor_scene b) = None"
  by (simp_all add: cursor_scene_def new_morph_def)

lemma cursor_scene_all_rooted: "\<forall>b. rooted cursor_scene b"
proof
  fix b :: nat
  have r0: "rooted cursor_scene 0"
    using rooted_top[of cursor_scene 0] cursor_scene_facts(3) by simp
  consider "b = 7" | "b = 8" | "b \<notin> {7, 8}" by blast
  then show "rooted cursor_scene b"
  proof cases
    case 1 then show ?thesis
      using rooted_up[of cursor_scene 7 0] cursor_scene_facts(10) r0 by simp
  next
    case 2 then show ?thesis
      using rooted_up[of cursor_scene 8 0] cursor_scene_facts(11) r0 by simp
  next
    case 3 then show ?thesis using rooted_top[of cursor_scene b] cursor_scene_parents by simp
  qed
qed

lemma cursor_scene_idle: "idle_hand 3 cursor_scene 4 0"
  using cursor_scene_all_depth
  by (simp add: idle_hand_def cursor_scene_tree_inv cursor_scene_facts isinstance_def)

lemma cursor_scene_hit: "morph_at_pointer 3 cursor_scene 4 = Inr (Some 7)"
  by (simp add: morph_at_pointer_def morph_at_def cursor_scene_facts fuel_numeral bindE_def
        isinstance_def point_defs rectangle_defs)

lemma cursor_scene_parents_7: "all_parents cursor_scene 7 = Some [7, 0]"
  by (simp add: all_parents.simps cursor_scene_facts)

lemma cursor_scene_stop_editing:
  "stop_editing 3 cursor_scene 0
     = Inr (cursor_scene
             (7 := (cursor_scene 7)\<lparr>parent := None\<rparr>,
              0 := (cursor_scene 0)\<lparr>broken := [Rectangle (Point 24 20) (Point 26 40)],
                     children := [8], keyboard_receiver := None\<rparr>))"
proof -
  have root: "root cursor_scene 7 = Some 0"
    by (simp add: root.simps cursor_scene_facts)
  have fb: "full_bounds 3 cursor_scene 7 = Inr (Rectangle (Point 24 20) (Point 26 40))"
    by (simp add: fuel_numeral cursor_scene_facts isinstance_def)
  have fc: "full_changed 3 cursor_scene 7
      = Inr (cursor_scene(0 := (cursor_scene 0)\<lparr>broken := [Rectangle (Point 24 20) (Point 26 40)]\<rparr>))"
    by (simp add: full_changed_def root fb cursor_scene_facts isinstance_def bindE_def report_def)
  have del: "delete 3 cursor_scene 7
      = Inr (cursor_scene
             (0 := (cursor_scene 0)\<lparr>broken := [Rectangle (Point 24 20) (Point 26 40)],
                     children := [8]\<rparr>,
              7 := (cursor_scene 7)\<lparr>parent := None\<rparr>))"
    by (simp add: delete_def fc cursor_scene_facts bindE_def remove_child_def Let_def)
  show ?thesis
    by (simp add: stop_editing_def cursor_scene_facts del bindE_def)
qed














text \<open>
  The hypothesis on the text cursor is needed. In \<open>cursor_scene\<close> the pointer is over
  the text cursor 7: the handler stops the editing, which deletes the cursor, and the walk
  from the cursor, which handles no clicks and has no parent any more, raises
  AttributeError.
\<close>

lemma down_on_text_cursor_raises:
  "idle_hand 3 cursor_scene 4 0 \<and> (\<forall>b. rooted cursor_scene b)
   \<and> (\<forall>b. depth_within 3 cursor_scene b)
   \<and> text_cursor (cursor_scene 0) = Some 7
   \<and> morph_at_pointer 3 cursor_scene 4 = Inr (Some 7)
   \<and> all_parents cursor_scene 7 = Some [7, 0]
   \<and> process_mouse_down 3 cursor_scene 4 \<lparr>pos = Point 25 25, button = BUTTON_LEFT\<rparr>
       = Some (Inl AttributeError)"
proof -
  let ?h2 = "cursor_scene
             (7 := (cursor_scene 7)\<lparr>parent := None\<rparr>,
              0 := (cursor_scene 0)\<lparr>broken := [Rectangle (Point 24 20) (Point 26 40)],
                     children := [8], keyboard_receiver := None\<rparr>)"
  have grab: "root_for_grab ?h2 7 = Some 7"
    by (simp add: root_for_grab.simps cursor_scene_facts)
  have walk: "click_walk (?h2(4 := (cursor_scene 4)\<lparr>morph_to_grab := Some 7\<rparr>)) (Some 7)
                = Some (Inl AttributeError)"
    by (simp add: click_walk.simps cursor_scene_facts handles_mouse_click_def)
  have "process_mouse_down 3 cursor_scene 4 \<lparr>pos = Point 25 25, button = BUTTON_LEFT\<rparr>
       = Some (Inl AttributeError)"
    by (simp add: process_mouse_down_def cursor_scene_facts cursor_scene_hit
          cursor_scene_stop_editing grab walk Let_def)
  then show ?thesis
    using cursor_scene_idle cursor_scene_all_rooted cursor_scene_all_depth
      cursor_scene_facts(20) cursor_scene_hit cursor_scene_parents_7
    by (intro conjI)
qed


end
